theory Spec2Isabelle
  imports Complex_Main
begin

section \<open>JavaScript numbers\<close>

text \<open>
  Every number of \<^verbatim>\<open>scene.js\<close> is an ECMAScript Number, an IEEE 754 binary64 value.
  A finite Number is represented by the real it denotes, and each arithmetic
  operation rounds its exact result to the nearest representable value, ties to even
  (\<open>rnd64\<close>); a \<^verbatim>\<open>Float32Array\<close> element is rounded to binary32 when it is stored
  (\<open>fround\<close>). The two zeros are identified: the sign of a zero is not represented, and
  a division by zero takes the zero as positive, so that the sign of an infinite
  quotient by zero is that of the dividend. What is proved below of a quotient by zero
  (the degenerate ray) holds of an infinity of either sign.
\<close>

datatype jsnum = Fin real | PInf | NInf | NaN

definition rne :: "real \<Rightarrow> int" where
  "rne q = (let f = \<lfloor>q\<rfloor>; d = q - of_int f in
     if d < 1 / 2 then f else if 1 / 2 < d then f + 1 else if even f then f else f + 1)"

text \<open>
  \<open>round_to p emin emax\<close> rounds to the format with \<open>p\<close> significant bits whose
  smallest positive value is \<open>2 powi emin\<close> and whose values are below \<open>2 powi emax\<close>:
  \<open>expo\<close> is the exponent of the last place of the binade of \<open>x\<close>, \<open>nearest\<close> the
  nearest multiple of that place, and a result of magnitude \<open>2 powi emax\<close> or more
  overflows to an infinity.
\<close>

definition expo :: "nat \<Rightarrow> int \<Rightarrow> real \<Rightarrow> int" where
  "expo p emin x = max (\<lfloor>log 2 \<bar>x\<bar>\<rfloor> - (int p - 1)) emin"

definition nearest :: "nat \<Rightarrow> int \<Rightarrow> real \<Rightarrow> real" where
  "nearest p emin x =
     (if x = 0 then 0
      else of_int (rne (x / 2 powi expo p emin x)) * 2 powi expo p emin x)"

definition round_to :: "nat \<Rightarrow> int \<Rightarrow> int \<Rightarrow> real \<Rightarrow> jsnum" where
  "round_to p emin emax x =
     (let r = nearest p emin x
      in if 2 powi emax \<le> \<bar>r\<bar> then (if x < 0 then NInf else PInf) else Fin r)"

definition rnd64 :: "real \<Rightarrow> jsnum" where
  "rnd64 = round_to 53 (- 1074) 1024"

definition rnd32 :: "real \<Rightarrow> jsnum" where
  "rnd32 = round_to 24 (- 149) 128"

text \<open>A decimal literal of the source denotes the Number nearest to it.\<close>

definition js :: "real \<Rightarrow> jsnum" where
  "js r = rnd64 r"

instantiation jsnum :: "{plus, minus, uminus, times, inverse, abs}"
begin

fun uminus_jsnum :: "jsnum \<Rightarrow> jsnum" where
  "uminus_jsnum (Fin a) = Fin (- a)"
| "uminus_jsnum PInf = NInf"
| "uminus_jsnum NInf = PInf"
| "uminus_jsnum NaN = NaN"

fun plus_jsnum :: "jsnum \<Rightarrow> jsnum \<Rightarrow> jsnum" where
  "plus_jsnum (Fin a) (Fin b) = rnd64 (a + b)"
| "plus_jsnum NaN b = NaN"
| "plus_jsnum a NaN = NaN"
| "plus_jsnum PInf NInf = NaN"
| "plus_jsnum NInf PInf = NaN"
| "plus_jsnum PInf b = PInf"
| "plus_jsnum a PInf = PInf"
| "plus_jsnum NInf b = NInf"
| "plus_jsnum a NInf = NInf"

definition minus_jsnum :: "jsnum \<Rightarrow> jsnum \<Rightarrow> jsnum" where
  "minus_jsnum a b = a + (- b)"

fun times_jsnum :: "jsnum \<Rightarrow> jsnum \<Rightarrow> jsnum" where
  "times_jsnum (Fin a) (Fin b) = rnd64 (a * b)"
| "times_jsnum NaN b = NaN"
| "times_jsnum a NaN = NaN"
| "times_jsnum (Fin a) PInf = (if a = 0 then NaN else if a < 0 then NInf else PInf)"
| "times_jsnum (Fin a) NInf = (if a = 0 then NaN else if a < 0 then PInf else NInf)"
| "times_jsnum PInf (Fin b) = (if b = 0 then NaN else if b < 0 then NInf else PInf)"
| "times_jsnum NInf (Fin b) = (if b = 0 then NaN else if b < 0 then PInf else NInf)"
| "times_jsnum PInf PInf = PInf"
| "times_jsnum PInf NInf = NInf"
| "times_jsnum NInf PInf = NInf"
| "times_jsnum NInf NInf = PInf"

fun divide_jsnum :: "jsnum \<Rightarrow> jsnum \<Rightarrow> jsnum" where
  "divide_jsnum (Fin a) (Fin b) =
     (if b = 0 then (if a = 0 then NaN else if a < 0 then NInf else PInf)
      else rnd64 (a / b))"
| "divide_jsnum NaN b = NaN"
| "divide_jsnum a NaN = NaN"
| "divide_jsnum (Fin a) PInf = Fin 0"
| "divide_jsnum (Fin a) NInf = Fin 0"
| "divide_jsnum PInf (Fin b) = (if b < 0 then NInf else PInf)"
| "divide_jsnum NInf (Fin b) = (if b < 0 then PInf else NInf)"
| "divide_jsnum PInf PInf = NaN"
| "divide_jsnum PInf NInf = NaN"
| "divide_jsnum NInf PInf = NaN"
| "divide_jsnum NInf NInf = NaN"

fun inverse_jsnum :: "jsnum \<Rightarrow> jsnum" where
  "inverse_jsnum (Fin a) = (if a = 0 then PInf else rnd64 (1 / a))"
| "inverse_jsnum PInf = Fin 0"
| "inverse_jsnum NInf = Fin 0"
| "inverse_jsnum NaN = NaN"

fun abs_jsnum :: "jsnum \<Rightarrow> jsnum" where
  "abs_jsnum (Fin a) = Fin \<bar>a\<bar>"
| "abs_jsnum PInf = PInf"
| "abs_jsnum NInf = PInf"
| "abs_jsnum NaN = NaN"

instance ..

end

text \<open>\<^verbatim>\<open>a < b\<close> on Numbers: false as soon as one side is \<^verbatim>\<open>NaN\<close>.\<close>

fun js_less :: "jsnum \<Rightarrow> jsnum \<Rightarrow> bool" where
  "js_less (Fin a) (Fin b) = (a < b)"
| "js_less NaN b = False"
| "js_less a NaN = False"
| "js_less PInf b = False"
| "js_less a NInf = False"
| "js_less a PInf = True"
| "js_less NInf b = True"

definition Math_max :: "jsnum \<Rightarrow> jsnum \<Rightarrow> jsnum" where
  "Math_max a b = (if a = NaN \<or> b = NaN then NaN else if js_less a b then b else a)"

definition Math_min :: "jsnum \<Rightarrow> jsnum \<Rightarrow> jsnum" where
  "Math_min a b = (if a = NaN \<or> b = NaN then NaN else if js_less b a then b else a)"

fun Math_sqrt :: "jsnum \<Rightarrow> jsnum" where
  "Math_sqrt (Fin a) = (if a < 0 then NaN else rnd64 (sqrt a))"
| "Math_sqrt PInf = PInf"
| "Math_sqrt NInf = NaN"
| "Math_sqrt NaN = NaN"

text \<open>\<^verbatim>\<open>a || b\<close> on Numbers: \<^verbatim>\<open>0\<close> and \<^verbatim>\<open>NaN\<close> are falsy.\<close>

definition js_or :: "jsnum \<Rightarrow> jsnum \<Rightarrow> jsnum" where
  "js_or a b = (if a = Fin 0 \<or> a = NaN then b else a)"

text \<open>The conversion applied by a store into a \<^verbatim>\<open>Float32Array\<close>.\<close>

fun fround :: "jsnum \<Rightarrow> jsnum" where
  "fround (Fin a) = rnd32 a"
| "fround PInf = PInf"
| "fround NInf = NInf"
| "fround NaN = NaN"

fun finite_num :: "jsnum \<Rightarrow> bool" where
  "finite_num (Fin a) = True"
| "finite_num PInf = False"
| "finite_num NInf = False"
| "finite_num NaN = False"

section \<open>Typed arrays\<close>

text \<open>
  A \<^verbatim>\<open>Float32Array\<close> is the list of its elements. A read past the end gives
  \<^verbatim>\<open>undefined\<close>, which a later store turns into \<^verbatim>\<open>NaN\<close>; a store past the end
  is ignored.
\<close>

definition load :: "jsnum list \<Rightarrow> nat \<Rightarrow> jsnum" where
  "load arr i = (if i < length arr then arr ! i else NaN)"

definition store :: "jsnum list \<Rightarrow> nat \<Rightarrow> jsnum \<Rightarrow> jsnum list" where
  "store arr i v = (if i < length arr then arr[i := fround v] else arr)"

section \<open>The three.js objects used by the scene\<close>

text \<open>
  \<^verbatim>\<open>THREE.Vector3\<close> and the methods \<^verbatim>\<open>_mouseToWorld\<close> calls on it, as three.js
  defines them: \<^verbatim>\<open>normalize()\<close> is \<^verbatim>\<open>divideScalar(length() || 1)\<close> and
  \<^verbatim>\<open>divideScalar(s)\<close> is \<^verbatim>\<open>multiplyScalar(1 / s)\<close>.
\<close>

record vec3 =
  vx :: jsnum
  vy :: jsnum
  vz :: jsnum

definition Vector3 :: "jsnum \<Rightarrow> jsnum \<Rightarrow> jsnum \<Rightarrow> vec3" where
  "Vector3 a b c = \<lparr>vx = a, vy = b, vz = c\<rparr>"

definition v_sub :: "vec3 \<Rightarrow> vec3 \<Rightarrow> vec3" where
  "v_sub a b = \<lparr>vx = vx a - vx b, vy = vy a - vy b, vz = vz a - vz b\<rparr>"

definition v_add :: "vec3 \<Rightarrow> vec3 \<Rightarrow> vec3" where
  "v_add a b = \<lparr>vx = vx a + vx b, vy = vy a + vy b, vz = vz a + vz b\<rparr>"

definition multiplyScalar :: "vec3 \<Rightarrow> jsnum \<Rightarrow> vec3" where
  "multiplyScalar a s = \<lparr>vx = vx a * s, vy = vy a * s, vz = vz a * s\<rparr>"

definition v_length :: "vec3 \<Rightarrow> jsnum" where
  "v_length a = Math_sqrt (vx a * vx a + vy a * vy a + vz a * vz a)"

definition divideScalar :: "vec3 \<Rightarrow> jsnum \<Rightarrow> vec3" where
  "divideScalar a s = multiplyScalar a (js 1 / s)"

definition normalize :: "vec3 \<Rightarrow> vec3" where
  "normalize a = divideScalar a (js_or (v_length a) (js 1))"

datatype geometry =
    IcosahedronGeometry real real
  | OctahedronGeometry real real
  | TorusGeometry real real real real
  | DodecahedronGeometry real real
  | TorusKnotGeometry real real real real real real
  | PlaneGeometry jsnum jsnum

record object3d =
  position :: vec3
  rotation :: vec3

record camera = object3d +
  fov :: jsnum
  aspect :: jsnum
  near :: jsnum
  far :: jsnum

record mesh = object3d +
  geometry :: geometry

text \<open>A wireframe mesh with its \<^verbatim>\<open>userData\<close>.\<close>

record wireframe = mesh +
  basePosition :: vec3
  speed :: jsnum

record uniforms =
  time :: jsnum
  scroll :: jsnum
  mouse :: "jsnum \<times> jsnum"
  resolution :: "jsnum \<times> jsnum"
  velocity :: jsnum

text \<open>The position attribute of the trail: its array and its upload flag.\<close>

record buffer =
  array :: "jsnum list"
  needsUpdate :: bool

text \<open>
  The calls the scene makes on the renderer, the composer and the geometries it owns,
  in the order they are made.
\<close>

datatype gl_call =
    NewWebGLRenderer
  | SetPixelRatio jsnum
  | RendererSetSize jsnum jsnum
  | NewGeometry geometry
  | NewPoints nat
  | NewEffectComposer
  | AddPass string
  | UpdateProjectionMatrix
  | ComposerSetSize jsnum jsnum
  | GeometryDispose geometry
  | ComposerRender

text \<open>
  What the browser and three.js supply to a call: the window's size and pixel ratio,
  the successive results of \<^verbatim>\<open>Math.random()\<close>, the clock's reading
  \<^verbatim>\<open>getElapsedTime()\<close>, the map \<^verbatim>\<open>Vector3.unproject(camera)\<close>, the
  implementation-approximated \<^verbatim>\<open>Math.sin\<close> and \<^verbatim>\<open>Math.tan\<close>, and
  \<^verbatim>\<open>THREE.MathUtils.degToRad\<close>.
\<close>

record host =
  innerWidth :: jsnum
  innerHeight :: jsnum
  devicePixelRatio :: jsnum
  random :: "nat \<Rightarrow> jsnum"
  elapsed :: jsnum
  unproject :: "camera \<Rightarrow> vec3 \<Rightarrow> vec3"
  Math_sin :: "jsnum \<Rightarrow> jsnum"
  Math_tan :: "jsnum \<Rightarrow> jsnum"
  degToRad :: "jsnum \<Rightarrow> jsnum"

section \<open>The scene object\<close>

text \<open>
  The properties a \<^verbatim>\<open>Scene\<close> holds once its constructor has run to the end.
  \<open>calls\<close> is the history of the calls made on the rendering objects; it is not a
  property of the JavaScript object.
\<close>

record active =
  canvas :: string
  scrollProgress :: jsnum
  mouseX :: jsnum
  mouseY :: jsnum
  geometries :: "wireframe list"
  trailLength :: nat
  camera :: camera
  bgUniforms :: uniforms
  bgMesh :: mesh
  particles :: "object3d option"
  trailGeometry :: "buffer option"
  calls :: "gl_call list"

text \<open>
  A scene is either enabled, or disabled: then the constructor returned before it
  assigned anything but \<^verbatim>\<open>enabled\<close>, and the object holds only the properties that
  later calls create on it.
\<close>

datatype scene = Disabled "string \<rightharpoonup> jsnum" | Enabled active

fun enabled :: "scene \<Rightarrow> bool" where
  "enabled (Disabled props) = False"
| "enabled (Enabled a) = True"

fun gl_calls :: "scene \<Rightarrow> gl_call list" where
  "gl_calls (Disabled props) = []"
| "gl_calls (Enabled a) = calls a"

section \<open>Construction\<close>

definition Math_PI :: jsnum where
  "Math_PI = js pi"

definition initRenderer :: "host \<Rightarrow> gl_call list" where
  "initRenderer h =
     (let dpr = Math_min (devicePixelRatio h) (js 2)
      in [NewWebGLRenderer, SetPixelRatio dpr, RendererSetSize (innerWidth h) (innerHeight h)])"

definition initCamera :: "host \<Rightarrow> camera" where
  "initCamera h =
     \<lparr>position = Vector3 (js 0) (js 0) (js 30),
      rotation = Vector3 (js 0) (js 0) (js 0),
      fov = js 45,
      aspect = innerWidth h / innerHeight h,
      near = js 0.1,
      far = js 1000\<rparr>"

definition initUniforms :: "host \<Rightarrow> uniforms" where
  "initUniforms h =
     \<lparr>time = js 0.0,
      scroll = js 0.0,
      mouse = (js 0.0, js 0.0),
      resolution = (innerWidth h, innerHeight h),
      velocity = js 0.0\<rparr>"

definition initBackground :: "host \<Rightarrow> mesh" where
  "initBackground h =
     (let dist = js 30 + js 50;
          vFov = degToRad h (js 45);
          planeHeight = js 2 * Math_tan h (vFov / js 2) * dist;
          planeWidth = planeHeight * (innerWidth h / innerHeight h);
          bgGeometry = PlaneGeometry (planeWidth * js 1.2) (planeHeight * js 1.2)
      in \<lparr>position = Vector3 (js 0) (js 0) (- js 50),
          rotation = Vector3 (js 0) (js 0) (js 0),
          geometry = bgGeometry\<rparr>)"

definition defs :: "(geometry \<times> vec3 \<times> jsnum) list" where
  "defs =
     [(IcosahedronGeometry 3.5 1, Vector3 (- js 10) (js 6) (- js 15), js 1.0),
      (OctahedronGeometry 2.5 0, Vector3 (js 12) (- js 4) (- js 20), js 0.7),
      (TorusGeometry 2.8 0.6 8 24, Vector3 (- js 6) (- js 8) (- js 12), js 0.5),
      (DodecahedronGeometry 2.0 0, Vector3 (js 8) (js 8) (- js 18), js 0.9),
      (TorusKnotGeometry 2.0 0.5 64 8 2 3, Vector3 (js 0) (- js 12) (- js 16), js 0.6)]"

text \<open>
  The mesh of the \<open>k\<close>-th definition; its starting rotation takes the results
  \<open>2 * k\<close> and \<open>2 * k + 1\<close> of \<^verbatim>\<open>Math.random()\<close>.
\<close>

definition initWireframe :: "host \<Rightarrow> nat \<Rightarrow> geometry \<times> vec3 \<times> jsnum \<Rightarrow> wireframe" where
  "initWireframe h k def =
     (case def of (geo, pos, spd) \<Rightarrow>
        \<lparr>position = pos,
         rotation = Vector3 (random h (2 * k) * Math_PI * js 2)
                            (random h (2 * k + 1) * Math_PI * js 2) (js 0),
         geometry = geo,
         basePosition = pos,
         speed = spd\<rparr>)"

definition initWireframes :: "host \<Rightarrow> wireframe list" where
  "initWireframes h = map (\<lambda>k. initWireframe h k (defs ! k)) [0..<length defs]"

text \<open>
  The star field: only the rotation of the \<^verbatim>\<open>Points\<close> object is kept; its
  position buffer is written once and never read again by the scene.
\<close>

definition initParticles :: "object3d" where
  "initParticles =
     \<lparr>position = Vector3 (js 0) (js 0) (js 0), rotation = Vector3 (js 0) (js 0) (js 0)\<rparr>"

definition initCursorTrail :: "nat \<Rightarrow> buffer" where
  "initCursorTrail count =
     (let positions = replicate (count * 3) (Fin 0);
          positions = fold (\<lambda>i positions.
              let i3 = i * 3;
                  positions = store positions i3 (js 0);
                  positions = store positions (i3 + 1) (js 0)
              in store positions (i3 + 2) (- js 100)) [0..<count] positions
      in \<lparr>array = positions, needsUpdate = False\<rparr>)"

definition initPostProcessing :: "gl_call list" where
  "initPostProcessing =
     [NewEffectComposer, AddPass ''RenderPass'', AddPass ''UnrealBloomPass'',
      AddPass ''OutputPass'']"

definition construct :: "host \<Rightarrow> string option \<Rightarrow> scene" where
  "construct h el =
     (case el of
        None \<Rightarrow> Disabled Map.empty
      | Some c \<Rightarrow>
          Enabled
            \<lparr>canvas = c,
             scrollProgress = js 0,
             mouseX = js 0,
             mouseY = js 0,
             geometries = initWireframes h,
             trailLength = 100,
             camera = initCamera h,
             bgUniforms = initUniforms h,
             bgMesh = initBackground h,
             particles = Some initParticles,
             trailGeometry = Some (initCursorTrail 100),
             calls = initRenderer h
               @ NewGeometry (geometry (initBackground h))
               # map (\<lambda>def. NewGeometry (fst def)) defs
               @ [NewPoints 1000, NewPoints 100]
               @ initPostProcessing\<rparr>)"

section \<open>Public API\<close>

fun setScroll :: "jsnum \<Rightarrow> scene \<Rightarrow> scene" where
  "setScroll progress (Disabled props) =
     Disabled (props(''scrollProgress'' \<mapsto> Math_max (js 0) (Math_min (js 1) progress)))"
| "setScroll progress (Enabled a) =
     Enabled (a\<lparr>scrollProgress := Math_max (js 0) (Math_min (js 1) progress)\<rparr>)"

fun setMouse :: "jsnum \<Rightarrow> jsnum \<Rightarrow> scene \<Rightarrow> scene" where
  "setMouse x y (Disabled props) = Disabled (props(''mouseX'' \<mapsto> x, ''mouseY'' \<mapsto> y))"
| "setMouse x y (Enabled a) = Enabled (a\<lparr>mouseX := x, mouseY := y\<rparr>)"

fun setVelocity :: "jsnum \<Rightarrow> scene \<Rightarrow> scene" where
  "setVelocity v (Disabled props) = Disabled props"
| "setVelocity v (Enabled a) = Enabled (a\<lparr>bgUniforms := (bgUniforms a)\<lparr>velocity := v\<rparr>\<rparr>)"

section \<open>The coordinate projector\<close>

definition rayDirection :: "host \<Rightarrow> camera \<Rightarrow> jsnum \<Rightarrow> jsnum \<Rightarrow> vec3" where
  "rayDirection h cam nx ny =
     (let ndc = Vector3 nx (- ny) (js 0.5);
          ndc = unproject h cam ndc
      in normalize (v_sub ndc (position cam)))"

definition mouseToWorld :: "host \<Rightarrow> camera \<Rightarrow> jsnum \<Rightarrow> jsnum \<Rightarrow> jsnum \<Rightarrow> vec3" where
  "mouseToWorld h cam nx ny z =
     (let dir = rayDirection h cam nx ny;
          distToPlane = (z - vz (position cam)) / vz dir
      in v_add (position cam) (multiplyScalar dir distToPlane))"

section \<open>The per-frame update\<close>

text \<open>
  The shift loop of \<^verbatim>\<open>_updateCursorTrail\<close>: \<open>shiftTrail i arr\<close> runs the iterations
  \<open>i, i - 1, \<dots>, 1\<close>.
\<close>

fun shiftTrail :: "nat \<Rightarrow> jsnum list \<Rightarrow> jsnum list" where
  "shiftTrail 0 arr = arr"
| "shiftTrail (Suc j) arr =
     (let i = Suc j;
          dst = i * 3;
          src = (i - 1) * 3;
          arr = store arr dst (load arr src);
          arr = store arr (dst + 1) (load arr (src + 1));
          arr = store arr (dst + 2) (load arr (src + 2))
      in shiftTrail j arr)"

definition updateCursorTrail :: "host \<Rightarrow> active \<Rightarrow> active" where
  "updateCursorTrail h a =
     (case trailGeometry a of
        None \<Rightarrow> a
      | Some posAttr \<Rightarrow>
          let arr = array posAttr;
              count = trailLength a;
              arr = shiftTrail (count - 1) arr;
              worldPos = mouseToWorld h (camera a) (mouseX a) (mouseY a) (js 5);
              arr = store arr 0 (vx worldPos);
              arr = store arr 1 (vy worldPos);
              arr = store arr 2 (vz worldPos)
          in a\<lparr>trailGeometry := Some \<lparr>array = arr, needsUpdate = True\<rparr>\<rparr>)"

definition depthFactor :: "wireframe \<Rightarrow> jsnum" where
  "depthFactor m = js 1.0 - (\<bar>vz (basePosition m)\<bar> / js 25.0)"

definition parallaxStrength :: "wireframe \<Rightarrow> jsnum" where
  "parallaxStrength m = js 0.8 * depthFactor m"

definition animateWireframe :: "host \<Rightarrow> jsnum \<Rightarrow> jsnum \<Rightarrow> wireframe \<Rightarrow> wireframe" where
  "animateWireframe h mx my m =
     (let spd = speed m;
          rot = rotation m;
          rot = rot\<lparr>vx := vx rot + js 0.001 * spd\<rparr>;
          rot = rot\<lparr>vy := vy rot + js 0.0015 * spd\<rparr>;
          rot = rot\<lparr>vz := vz rot + js 0.0005 * spd\<rparr>;
          pos = position m;
          pos = pos\<lparr>vx := vx (basePosition m) + mx * parallaxStrength m\<rparr>;
          pos = pos\<lparr>vy := vy (basePosition m) + my * parallaxStrength m\<rparr>;
          pos = pos\<lparr>vy := vy pos
                  + Math_sin h (elapsed h * js 0.3 * spd + speed m * js 10) * js 0.15\<rparr>
      in m\<lparr>position := pos, rotation := rot\<rparr>)"

definition rotateParticles :: "host \<Rightarrow> object3d \<Rightarrow> object3d" where
  "rotateParticles h p =
     (let rot = rotation p;
          rot = rot\<lparr>vy := elapsed h * js 0.01\<rparr>;
          rot = rot\<lparr>vx := elapsed h * js 0.005\<rparr>
      in p\<lparr>rotation := rot\<rparr>)"

text \<open>The body of \<^verbatim>\<open>update()\<close> past its guard.\<close>

definition frame :: "host \<Rightarrow> active \<Rightarrow> active" where
  "frame h a =
     (let u = bgUniforms a;
          u = u\<lparr>time := elapsed h\<rparr>;
          u = u\<lparr>scroll := scrollProgress a\<rparr>;
          u = u\<lparr>mouse := (mouseX a, mouseY a)\<rparr>;
          u = u\<lparr>velocity := velocity u * js 0.95\<rparr>;
          a = a\<lparr>bgUniforms := u\<rparr>;
          a = a\<lparr>geometries := map (animateWireframe h (mouseX a) (mouseY a)) (geometries a)\<rparr>;
          a = a\<lparr>particles := map_option (rotateParticles h) (particles a)\<rparr>;
          a = updateCursorTrail h a
      in a\<lparr>calls := calls a @ [ComposerRender]\<rparr>)"

fun update :: "host \<Rightarrow> scene \<Rightarrow> scene" where
  "update h (Disabled props) = Disabled props"
| "update h (Enabled a) = Enabled (frame h a)"

section \<open>Resize\<close>

fun resize :: "host \<Rightarrow> jsnum \<Rightarrow> jsnum \<Rightarrow> scene \<Rightarrow> scene" where
  "resize h width height (Disabled props) = Disabled props"
| "resize h width height (Enabled a) =
     (let cam = (camera a)\<lparr>aspect := width / height\<rparr>;
          u = (bgUniforms a)\<lparr>resolution := (width, height)\<rparr>;
          dist = js 30 + js 50;
          vFov = degToRad h (js 45);
          planeHeight = js 2 * Math_tan h (vFov / js 2) * dist;
          planeWidth = planeHeight * (width / height);
          old = geometry (bgMesh a);
          new = PlaneGeometry (planeWidth * js 1.2) (planeHeight * js 1.2)
      in Enabled
           (a\<lparr>camera := cam,
              bgUniforms := u,
              bgMesh := (bgMesh a)\<lparr>geometry := new\<rparr>,
              calls := calls a
                @ [UpdateProjectionMatrix, RendererSetSize width height,
                   ComposerSetSize width height, GeometryDispose old, NewGeometry new]\<rparr>))"

section \<open>Observations and sample inputs\<close>

text \<open>The trail array of a scene, its \<open>i\<close>-th sample, and a vector as the array stores it.\<close>

fun trail :: "scene \<Rightarrow> jsnum list" where
  "trail (Disabled props) = []"
| "trail (Enabled a) = (case trailGeometry a of None \<Rightarrow> [] | Some b \<Rightarrow> array b)"

definition slot :: "jsnum list \<Rightarrow> nat \<Rightarrow> vec3" where
  "slot arr i = Vector3 (arr ! (i * 3)) (arr ! (i * 3 + 1)) (arr ! (i * 3 + 2))"

definition fround3 :: "vec3 \<Rightarrow> vec3" where
  "fround3 v = Vector3 (fround (vx v)) (fround (vy v)) (fround (vz v))"

text \<open>The width and height of the background plane.\<close>

fun planeSize :: "scene \<Rightarrow> (jsnum \<times> jsnum) option" where
  "planeSize (Disabled props) = None"
| "planeSize (Enabled a) =
     (case geometry (bgMesh a) of PlaneGeometry w h \<Rightarrow> Some (w, h) | _ \<Rightarrow> None)"

text \<open>A call of the public API, and a sequence of calls made on a scene.\<close>

datatype call =
    Update host
  | Resize host jsnum jsnum
  | SetScroll jsnum
  | SetMouse jsnum jsnum
  | SetVelocity jsnum

fun perform :: "call \<Rightarrow> scene \<Rightarrow> scene" where
  "perform (Update h) s = update h s"
| "perform (Resize h w ht) s = resize h w ht s"
| "perform (SetScroll p) s = setScroll p s"
| "perform (SetMouse x y) s = setMouse x y s"
| "perform (SetVelocity v) s = setVelocity v s"

text \<open>
  A host whose \<^verbatim>\<open>unproject\<close> sends a device point to the plane one unit in front of
  a camera at \<open>z = 30\<close>, and an enabled scene with a trail of two samples.
\<close>

definition sample_host :: host where
  "sample_host =
     \<lparr>innerWidth = Fin 1920,
      innerHeight = Fin 1080,
      devicePixelRatio = Fin 1,
      random = (\<lambda>n. Fin 0),
      elapsed = Fin 0,
      unproject = (\<lambda>cam v. Vector3 (vx v) (vy v) (Fin 29)),
      Math_sin = (\<lambda>x. Fin 0),
      Math_tan = (\<lambda>x. Fin 1),
      degToRad = (\<lambda>x. x)\<rparr>"

definition sample_active :: active where
  "sample_active =
     \<lparr>canvas = ''bg'',
      scrollProgress = Fin 0,
      mouseX = Fin 0,
      mouseY = Fin 0,
      geometries = [],
      trailLength = 2,
      camera = initCamera sample_host,
      bgUniforms = initUniforms sample_host,
      bgMesh = initBackground sample_host,
      particles = None,
      trailGeometry = Some \<lparr>array = [Fin 0, Fin 0, Fin 0, Fin 0, Fin 0, Fin 0], needsUpdate = False\<rparr>,
      calls = []\<rparr>"

text \<open>The sentinel of the trail, and the coordinates of a vector in array order.\<close>

definition sentinel :: vec3 where
  "sentinel = Vector3 (Fin 0) (Fin 0) (Fin (- 100))"

definition coords :: "vec3 \<Rightarrow> jsnum list" where
  "coords v = [vx v, vy v, vz v]"

text \<open>
  The pointer positions that the updates of a sequence of calls project and store,
  the newest first.
\<close>

fun projections :: "call list \<Rightarrow> scene \<Rightarrow> vec3 list" where
  "projections [] s = []"
| "projections (Update h # cs) (Enabled a) =
     projections cs (update h (Enabled a))
       @ [fround3 (mouseToWorld h (camera a) (mouseX a) (mouseY a) (js 5))]"
| "projections (c # cs) s = projections cs (perform c s)"

text \<open>The real a finite Number denotes.\<close>

fun fin :: "jsnum \<Rightarrow> real option" where
  "fin (Fin a) = Some a"
| "fin PInf = None"
| "fin NInf = None"
| "fin NaN = None"

text \<open>
  The view volume of a \<^verbatim>\<open>THREE.PerspectiveCamera\<close> that has not been rotated (the
  scene never rotates its camera): it looks down the negative \<open>z\<close> axis from its
  position, \<open>fov\<close> is the vertical field of view in degrees, and a point at depth
  \<open>d\<close> in front of the camera is inside when \<open>d\<close> lies between \<open>near\<close> and \<open>far\<close>
  and its offsets from the axis are at most \<open>d * tan (fov / 2)\<close> vertically and
  \<open>aspect\<close> times that horizontally.
\<close>

definition in_frustum :: "camera \<Rightarrow> vec3 \<Rightarrow> bool" where
  "in_frustum cam p =
     (case those (map fin [vx (position cam), vy (position cam), vz (position cam),
                           fov cam, aspect cam, near cam, far cam, vx p, vy p, vz p]) of
        Some [cx, cy, cz, f, asp, n, fr, px, py, pz] \<Rightarrow>
          (let d = cz - pz;
               t = tan (f * pi / 360)
           in n \<le> d \<and> d \<le> fr \<and> \<bar>py - cy\<bar> \<le> d * t \<and> \<bar>px - cx\<bar> \<le> d * t * asp)
      | _ \<Rightarrow> False)"

text \<open>The decorative objects of a scene.\<close>

fun objects :: "scene \<Rightarrow> wireframe list" where
  "objects (Disabled props) = []"
| "objects (Enabled a) = geometries a"

text \<open>
  The argument \<^verbatim>\<open>update()\<close> passes to \<^verbatim>\<open>Math.sin\<close> for the bob of an object of
  speed \<open>spd\<close>.
\<close>

definition bobPhase :: "host \<Rightarrow> jsnum \<Rightarrow> jsnum" where
  "bobPhase h spd = elapsed h * js 0.3 * spd + spd * js 10"

text \<open>
  The pointer-parallax displacement of the \<open>i\<close>-th decorative object: the position
  \<^verbatim>\<open>update()\<close> stores for it with the pointer at \<open>(x, y)\<close>, minus the position the same
  \<^verbatim>\<open>update()\<close> stores for it with the pointer at \<open>(0, 0)\<close>, on the \<open>x\<close> and \<open>y\<close> axes,
  when these four coordinates are finite; and the length of a displacement.
\<close>

definition displacement :: "host \<Rightarrow> jsnum \<Rightarrow> jsnum \<Rightarrow> scene \<Rightarrow> nat \<Rightarrow> (real \<times> real) option" where
  "displacement h x y s i =
     (let moved = objects (update h (setMouse x y s));
          still = objects (update h (setMouse (js 0) (js 0) s))
      in if i < length moved \<and> i < length still
         then (case those (map fin [vx (position (moved ! i)), vy (position (moved ! i)),
                                    vx (position (still ! i)), vy (position (still ! i))]) of
                 Some [px, py, qx, qy] \<Rightarrow> Some (px - qx, py - qy)
               | _ \<Rightarrow> None)
         else None)"

fun hypot :: "real \<times> real \<Rightarrow> real" where
  "hypot (a, b) = sqrt (a * a + b * b)"

text \<open>
  The parallax strength of an object at base depth \<open>z\<close>, as the operations of
  \<^verbatim>\<open>update()\<close> round it.
\<close>

definition strength :: "real \<Rightarrow> real" where
  "strength z = nearest 53 (- 1074)
     (nearest 53 (- 1074) 0.8 * nearest 53 (- 1074) (1 - nearest 53 (- 1074) (\<bar>z\<bar> / 25)))"

text \<open>The velocity uniform of a scene.\<close>

fun velocityUniform :: "scene \<Rightarrow> jsnum option" where
  "velocityUniform (Disabled props) = None"
| "velocityUniform (Enabled a) = Some (velocity (bgUniforms a))"

text \<open>The calls that are an \<^verbatim>\<open>update()\<close>, and those that are a \<^verbatim>\<open>setVelocity\<close>.\<close>

fun isUpdate :: "call \<Rightarrow> bool" where
  "isUpdate (Update h) = True"
| "isUpdate c = False"

fun isSetVelocity :: "call \<Rightarrow> bool" where
  "isSetVelocity (SetVelocity v) = True"
| "isSetVelocity c = False"

text \<open>The velocity uniform after \<open>k\<close> frames: \<open>k\<close> successive products with the literal \<^verbatim>\<open>0.95\<close>.\<close>

definition decay :: "nat \<Rightarrow> jsnum \<Rightarrow> jsnum" where
  "decay k v = ((\<lambda>x. x * js 0.95) ^^ k) v"

text \<open>
  The reals a format represents: an integer of fewer than \<open>p\<close> bits times a power of
  two not below the smallest one; and the finite Numbers.
\<close>

definition representable :: "nat \<Rightarrow> int \<Rightarrow> real \<Rightarrow> bool" where
  "representable p emin x \<longleftrightarrow> (\<exists>m e. x = of_int m * 2 powi e \<and> \<bar>m\<bar> < 2 ^ p \<and> emin \<le> e)"

definition is_double :: "real \<Rightarrow> bool" where
  "is_double x \<longleftrightarrow> representable 53 (- 1074) x \<and> \<bar>x\<bar> < 2 powi 1024"

section \<open>Rounding\<close>

lemma rne_of_int: "rne (of_int n) = n" by (simp add: rne_def)

lemma rne_ge_floor: "\<lfloor>x\<rfloor> \<le> rne x"
  by (simp add: rne_def Let_def)

lemma rne_le_floor1: "rne x \<le> \<lfloor>x\<rfloor> + 1"
  by (simp add: rne_def Let_def)

lemma rne_mono: "x \<le> y \<Longrightarrow> rne x \<le> rne y"
proof -
  assume xy: "x \<le> y"
  have fl: "\<lfloor>x\<rfloor> \<le> \<lfloor>y\<rfloor>" using xy by (rule floor_mono)
  show ?thesis
  proof (cases "\<lfloor>x\<rfloor> = \<lfloor>y\<rfloor>")
    case True
    then show ?thesis using xy unfolding rne_def Let_def by (auto split: if_splits)
  next
    case False
    then have "\<lfloor>x\<rfloor> + 1 \<le> \<lfloor>y\<rfloor>" using fl by linarith
    then show ?thesis using rne_le_floor1 [of x] rne_ge_floor [of y] by linarith
  qed
qed

lemma rne_err: "\<bar>of_int (rne x) - x\<bar> \<le> 1 / 2"
  unfolding rne_def Let_def by (auto split: if_splits)

lemma rne_minus: "rne (- x) = - rne x"
proof (cases "x = of_int \<lfloor>x\<rfloor>")
  case True
  then obtain n where "x = of_int n" by blast
  then show ?thesis
    using rne_of_int [of n] rne_of_int [of "- n"] by simp
next
  case False
  then have lt: "of_int \<lfloor>x\<rfloor> < x" using of_int_floor_le [of x] by linarith
  have "\<lfloor>- x\<rfloor> = - \<lfloor>x\<rfloor> - 1"
  proof (rule floor_unique)
    show "of_int (- \<lfloor>x\<rfloor> - 1) \<le> - x" using floor_correct [of x] by simp linarith
    show "- x < of_int (- \<lfloor>x\<rfloor> - 1) + 1" using lt by simp
  qed
  then show ?thesis using lt unfolding rne_def Let_def
    by (auto split: if_splits)
qed

lemma powr2_powi: "(2::real) powr real_of_int k = 2 powi k"
  by (rule powr_real_of_int') simp_all

lemma log2_bounds:
  assumes "x \<noteq> 0"
  shows "2 powi \<lfloor>log 2 \<bar>x\<bar>\<rfloor> \<le> \<bar>x\<bar>" and "\<bar>x\<bar> < 2 powi (\<lfloor>log 2 \<bar>x\<bar>\<rfloor> + 1)"
proof -
  have pos: "0 < \<bar>x\<bar>" using assms by simp
  have "2 powr real_of_int \<lfloor>log 2 \<bar>x\<bar>\<rfloor> \<le> \<bar>x\<bar> \<and> \<bar>x\<bar> < 2 powr real_of_int (\<lfloor>log 2 \<bar>x\<bar>\<rfloor> + 1)"
    using floor_log_eq_powr_iff [OF pos, of 2 "\<lfloor>log 2 \<bar>x\<bar>\<rfloor>"] by simp
  then show "2 powi \<lfloor>log 2 \<bar>x\<bar>\<rfloor> \<le> \<bar>x\<bar>" and "\<bar>x\<bar> < 2 powi (\<lfloor>log 2 \<bar>x\<bar>\<rfloor> + 1)"
    unfolding powr2_powi by blast+
qed

lemma floor_log2_eq:
  assumes "2 powi k \<le> \<bar>x\<bar>" and "\<bar>x\<bar> < 2 powi (k + 1)"
  shows "\<lfloor>log 2 \<bar>x\<bar>\<rfloor> = k"
proof -
  have "0 < (2::real) powi k" by simp
  then have pos: "0 < \<bar>x\<bar>" using assms(1) by linarith
  have "2 powr real_of_int k \<le> \<bar>x\<bar> \<and> \<bar>x\<bar> < 2 powr real_of_int (k + 1)"
    unfolding powr2_powi using assms by blast
  moreover have "(1::real) < 2" by simp
  ultimately show ?thesis
    using floor_log_eq_powr_iff [OF pos, of 2 k] by blast
qed

lemma powi2_diff: "(2::real) powi a / 2 powi b = 2 powi (a - b)"
  by (simp add: power_int_diff)

lemma powi2_nat: "0 \<le> n \<Longrightarrow> (2::real) powi n = of_int (2 ^ nat n)"
  by (simp add: power_int_nonneg_exp)

lemma nearest_exact:
  assumes "representable p emin x"
  shows "nearest p emin x = x"
proof (cases "x = 0")
  case True
  then show ?thesis by (simp add: nearest_def)
next
  case False
  from assms obtain m e' where x: "x = of_int m * 2 powi e'" and m: "\<bar>m\<bar> < 2 ^ p" and e': "emin \<le> e'"
    unfolding representable_def by blast
  define k where "k = \<lfloor>log 2 \<bar>x\<bar>\<rfloor>"
  define e where "e = expo p emin x"
  have e_def': "e = max (k - (int p - 1)) emin" by (simp add: e_def expo_def k_def)
  have lo: "2 powi k \<le> \<bar>x\<bar>" using log2_bounds(1) [OF False] by (simp add: k_def)
  have le: "e \<le> e'"
  proof (rule ccontr)
    assume "\<not> e \<le> e'"
    then have gt: "e' < e" by simp
    then have "e = k - (int p - 1)" using e' e_def' by linarith
    then have "e' + int p \<le> k" using gt by linarith
    then have "(2::real) powi (e' + int p) \<le> 2 powi k" by (intro power_int_increasing) simp_all
    then have "(2::real) powi (e' + int p) \<le> \<bar>x\<bar>" using lo by linarith
    moreover have "\<bar>x\<bar> = \<bar>of_int m\<bar> * 2 powi e'" by (simp add: x abs_mult)
    moreover have "\<bar>real_of_int m\<bar> < 2 ^ p" using m by (metis of_int_abs of_int_less_numeral_power_cancel_iff)
    moreover have "(2::real) powi (e' + int p) = 2 ^ p * 2 powi e'" by (simp add: power_int_add)
    ultimately have "2 ^ p * (2::real) powi e' \<le> \<bar>of_int m\<bar> * 2 powi e'" by simp
    then have "(2::real) ^ p \<le> \<bar>of_int m\<bar>" by simp
    then show False using \<open>\<bar>real_of_int m\<bar> < 2 ^ p\<close> by linarith
  qed
  have "x / 2 powi e = of_int m * (2 powi e' / 2 powi e)" by (simp add: x)
  also have "\<dots> = of_int m * 2 powi (e' - e)" by (simp only: powi2_diff)
  also have "\<dots> = of_int (m * 2 ^ nat (e' - e))" using le by (simp add: powi2_nat)
  finally have q: "x / 2 powi e = of_int (m * 2 ^ nat (e' - e))" .
  have "nearest p emin x = of_int (rne (x / 2 powi e)) * 2 powi e"
    using False by (simp add: nearest_def e_def)
  also have "\<dots> = (x / 2 powi e) * 2 powi e" by (simp only: q rne_of_int)
  also have "\<dots> = x" by simp
  finally show ?thesis .
qed

lemma expo_ge_emin: "emin \<le> expo p emin x"
  by (simp add: expo_def)

lemma quotient_bound:
  assumes "x \<noteq> 0" and "1 \<le> p"
  shows "\<bar>x / 2 powi expo p emin x\<bar> < 2 ^ p"
proof -
  define k where "k = \<lfloor>log 2 \<bar>x\<bar>\<rfloor>"
  define e where "e = expo p emin x"
  have "k - (int p - 1) \<le> e" by (simp add: e_def expo_def k_def)
  then have "k + 1 \<le> e + int p" by linarith
  then have "(2::real) powi (k + 1) \<le> 2 powi (e + int p)" by (intro power_int_increasing) simp_all
  moreover have "\<bar>x\<bar> < 2 powi (k + 1)" using log2_bounds(2) [OF assms(1)] by (simp add: k_def)
  moreover have "(2::real) powi (e + int p) = 2 ^ p * 2 powi e" by (simp add: power_int_add)
  ultimately have "\<bar>x\<bar> < 2 ^ p * 2 powi e" by linarith
  then have "\<bar>x\<bar> / 2 powi e < 2 ^ p" by (simp add: pos_divide_less_eq)
  then show ?thesis by (simp add: e_def abs_divide)
qed

lemma rne_abs_bound:
  assumes "\<bar>q\<bar> \<le> of_int n"
  shows "\<bar>rne q\<bar> \<le> n"
proof -
  have "q \<le> of_int n" and "of_int (- n) \<le> q" using assms by simp_all
  then have "rne q \<le> n" and "- n \<le> rne q"
    using rne_mono [of q "of_int n"] rne_mono [of "of_int (- n)" q] rne_of_int [of n] rne_of_int [of "- n"]
    by simp_all
  then show ?thesis by linarith
qed

lemma nearest_representable:
  assumes "1 \<le> p"
  shows "representable p emin (nearest p emin x)"
proof (cases "x = 0")
  case True
  have "(0::real) = of_int 0 * 2 powi emin \<and> \<bar>0::int\<bar> < 2 ^ p \<and> emin \<le> emin" by simp
  then show ?thesis unfolding representable_def using True by (auto simp: nearest_def)
next
  case False
  define e where "e = expo p emin x"
  define n where "n = rne (x / 2 powi e)"
  have nx: "nearest p emin x = of_int n * 2 powi e" using False by (simp add: nearest_def e_def n_def)
  have "\<bar>x / 2 powi e\<bar> \<le> of_int (2 ^ p)" using quotient_bound [OF False assms, of emin] by (simp add: e_def)
  then have nb: "\<bar>n\<bar> \<le> 2 ^ p" unfolding n_def by (rule rne_abs_bound)
  have ee: "emin \<le> e" by (simp add: e_def expo_ge_emin)
  show ?thesis
  proof (cases "\<bar>n\<bar> < 2 ^ p")
    case True
    then show ?thesis unfolding representable_def using nx ee by blast
  next
    case False
    then have "\<bar>n\<bar> = 2 ^ p" using nb by linarith
    then consider "n = 2 ^ p" | "n = - (2 ^ p)" by linarith
    then show ?thesis
    proof cases
      case 1
      obtain p' where p': "p = Suc p'" using assms by (cases p) simp_all
      have "real_of_int n * 2 powi e = of_int (2 ^ p') * 2 powi (e + 1)"
        by (simp add: 1 p' power_int_add)
      then have "nearest p emin x = of_int (2 ^ p') * 2 powi (e + 1)"
        by (simp only: nx)
      moreover have "\<bar>2 ^ p' :: int\<bar> < 2 ^ p" by (simp add: p')
      moreover have "emin \<le> e + 1" using ee by simp
      ultimately show ?thesis unfolding representable_def by blast
    next
      case 2
      obtain p' where p': "p = Suc p'" using assms by (cases p) simp_all
      have "real_of_int n * 2 powi e = of_int (- (2 ^ p')) * 2 powi (e + 1)"
        by (simp add: 2 p' power_int_add)
      then have "nearest p emin x = of_int (- (2 ^ p')) * 2 powi (e + 1)"
        by (simp only: nx)
      moreover have "\<bar>- (2 ^ p') :: int\<bar> < 2 ^ p" by (simp add: p')
      moreover have "emin \<le> e + 1" using ee by simp
      ultimately show ?thesis unfolding representable_def by blast
    qed
  qed
qed

lemma nearest_idem: "1 \<le> p \<Longrightarrow> nearest p emin (nearest p emin x) = nearest p emin x"
  by (rule nearest_exact) (rule nearest_representable)

lemma expo_minus: "expo p emin (- x) = expo p emin x"
  by (simp add: expo_def)

lemma nearest_minus: "nearest p emin (- x) = - nearest p emin x"
  by (simp add: nearest_def expo_minus rne_minus)

lemma nearest_nonneg:
  assumes "0 \<le> x"
  shows "0 \<le> nearest p emin x"
proof -
  have "0 \<le> x / 2 powi expo p emin x" using assms by simp
  then have "rne 0 \<le> rne (x / 2 powi expo p emin x)" by (rule rne_mono)
  then have "0 \<le> rne (x / 2 powi expo p emin x)" using rne_of_int [of 0] by simp
  then show ?thesis by (simp add: nearest_def)
qed

lemma floor_log2_mono:
  assumes "0 < x" and "x \<le> y"
  shows "\<lfloor>log 2 \<bar>x\<bar>\<rfloor> \<le> \<lfloor>log 2 \<bar>y\<bar>\<rfloor>"
proof -
  have "log 2 x \<le> log 2 y" using assms by simp
  then show ?thesis using assms by (simp add: floor_mono)
qed

lemma scale_le: "0 < u \<Longrightarrow> r \<le> a / u \<Longrightarrow> r * u \<le> (a::real)"
  by (simp add: pos_le_divide_eq)

lemma scale_ge: "0 < u \<Longrightarrow> a / u \<le> r \<Longrightarrow> (a::real) \<le> r * u"
  by (simp add: pos_divide_le_eq)

lemma nearest_mono_pos:
  assumes p: "1 \<le> p" and x: "0 < x" and xy: "x \<le> y"
  shows "nearest p emin x \<le> nearest p emin y"
proof -
  define kx where "kx = \<lfloor>log 2 \<bar>x\<bar>\<rfloor>"
  define ky where "ky = \<lfloor>log 2 \<bar>y\<bar>\<rfloor>"
  define ex where "ex = expo p emin x"
  define ey where "ey = expo p emin y"
  have x0: "x \<noteq> 0" and y0: "y \<noteq> 0" and ypos: "0 < y" using x xy by simp_all
  have k: "kx \<le> ky" unfolding kx_def ky_def using x xy by (rule floor_log2_mono)
  have ex': "ex = max (kx - (int p - 1)) emin" by (simp add: ex_def expo_def kx_def)
  have ey': "ey = max (ky - (int p - 1)) emin" by (simp add: ey_def expo_def ky_def)
  have nx: "nearest p emin x = of_int (rne (x / 2 powi ex)) * 2 powi ex"
    using x0 by (simp add: nearest_def ex_def)
  have ny: "nearest p emin y = of_int (rne (y / 2 powi ey)) * 2 powi ey"
    using y0 by (simp add: nearest_def ey_def)
  have e: "ex \<le> ey" using k ex' ey' by linarith
  show ?thesis
  proof (cases "ex = ey")
    case True
    have "x / 2 powi ey \<le> y / 2 powi ey" using xy by (simp add: divide_right_mono)
    then have "rne (x / 2 powi ey) \<le> rne (y / 2 powi ey)" by (rule rne_mono)
    then have "real_of_int (rne (x / 2 powi ey)) * 2 powi ey \<le> of_int (rne (y / 2 powi ey)) * 2 powi ey"
      by (simp add: mult_right_mono)
    then show ?thesis by (simp add: nx ny True)
  next
    case False
    then have lt: "ex < ey" using e by linarith
    then have eyk: "ey = ky - (int p - 1)" using ey' ex' by linarith
    have kk: "kx + 1 \<le> ky" using lt ex' eyk by linarith
    have exky: "ex \<le> ky" using lt eyk p by linarith
    have ylo: "2 powi ky \<le> y" using log2_bounds(1) [OF y0] ypos by (simp add: ky_def)
    have xhi: "x < 2 powi (kx + 1)" using log2_bounds(2) [OF x0] x by (simp add: kx_def)
    have "(2::real) powi (kx + 1) \<le> 2 powi ky" using kk by (intro power_int_increasing) simp_all
    then have xky: "x \<le> 2 powi ky" using xhi by linarith
    \<comment> \<open>the power of two between them is a value of both grids\<close>
    have "x / 2 powi ex \<le> 2 powi ky / 2 powi ex" using xky by (simp add: divide_right_mono)
    also have "\<dots> = of_int (2 ^ nat (ky - ex))" using exky by (simp only: powi2_diff) (simp add: powi2_nat)
    finally have "rne (x / 2 powi ex) \<le> rne (of_int (2 ^ nat (ky - ex)))" by (rule rne_mono)
    then have "real_of_int (rne (x / 2 powi ex)) \<le> of_int (2 ^ nat (ky - ex))"
      by (simp only: rne_of_int of_int_le_iff)
    also have "\<dots> = 2 powi ky / 2 powi ex" using exky by (simp only: powi2_diff) (simp add: powi2_nat)
    finally have "real_of_int (rne (x / 2 powi ex)) * 2 powi ex \<le> 2 powi ky"
      by (intro scale_le) simp_all
    then have a: "nearest p emin x \<le> 2 powi ky" by (simp add: nx)
    have eyky: "ey \<le> ky" using eyk p by linarith
    have "2 powi ky / 2 powi ey \<le> y / 2 powi ey" using ylo by (simp add: divide_right_mono)
    moreover have "2 powi ky / 2 powi ey = real_of_int (2 ^ nat (ky - ey))"
      using eyky by (simp only: powi2_diff) (simp add: powi2_nat)
    ultimately have "real_of_int (2 ^ nat (ky - ey)) \<le> y / 2 powi ey" by simp
    then have "rne (of_int (2 ^ nat (ky - ey))) \<le> rne (y / 2 powi ey)" by (rule rne_mono)
    then have "real_of_int (2 ^ nat (ky - ey)) \<le> of_int (rne (y / 2 powi ey))"
      by (simp only: rne_of_int of_int_le_iff)
    then have "2 powi ky / 2 powi ey \<le> real_of_int (rne (y / 2 powi ey))"
      using \<open>2 powi ky / 2 powi ey = real_of_int (2 ^ nat (ky - ey))\<close> by simp
    then have "2 powi ky \<le> real_of_int (rne (y / 2 powi ey)) * 2 powi ey"
      by (intro scale_ge) simp_all
    then have b: "2 powi ky \<le> nearest p emin y" by (simp add: ny)
    show ?thesis using a b by linarith
  qed
qed

lemma nearest_zero: "nearest p emin 0 = 0"
  by (simp add: nearest_def)

lemma nearest_mono:
  assumes p: "1 \<le> p" and xy: "x \<le> y"
  shows "nearest p emin x \<le> nearest p emin y"
proof -
  consider "0 < x" | "x \<le> 0" "0 \<le> y" | "y < 0" by linarith
  then show ?thesis
  proof cases
    case 1
    show ?thesis using nearest_mono_pos [OF p 1 xy] .
  next
    case 2
    have "nearest p emin x \<le> 0"
      using nearest_nonneg [of "- x" p emin] 2(1) by (simp add: nearest_minus)
    moreover have "0 \<le> nearest p emin y" using 2(2) by (rule nearest_nonneg)
    ultimately show ?thesis by linarith
  next
    case 3
    have "nearest p emin (- y) \<le> nearest p emin (- x)"
      using p 3 xy by (intro nearest_mono_pos) simp_all
    then show ?thesis by (simp add: nearest_minus)
  qed
qed

lemma round_to_Fin:
  "\<bar>nearest p emin x\<bar> < 2 powi emax \<Longrightarrow> round_to p emin emax x = Fin (nearest p emin x)"
  by (simp add: round_to_def)

lemma round_to_exact:
  "representable p emin x \<Longrightarrow> \<bar>x\<bar> < 2 powi emax \<Longrightarrow> round_to p emin emax x = Fin x"
  by (simp add: round_to_def nearest_exact)

lemma representable_int: "\<bar>m\<bar> < 2 ^ p \<Longrightarrow> emin \<le> 0 \<Longrightarrow> representable p emin (of_int m)"
  unfolding representable_def by (intro exI [of _ m] exI [of _ 0]) simp

lemma js_int: "\<bar>m\<bar> < 2 ^ 53 \<Longrightarrow> js (of_int m) = Fin (of_int m)"
proof -
  assume m: "\<bar>m\<bar> < 2 ^ 53"
  then have "representable 53 (- 1074) (of_int m)" by (intro representable_int) simp_all
  moreover have "\<bar>real_of_int m\<bar> < 2 ^ 53" using m by (metis of_int_abs of_int_less_numeral_power_cancel_iff)
  then have "\<bar>real_of_int m\<bar> < 2 powi 1024" by (simp add: power_int_def) 
  ultimately show ?thesis unfolding js_def rnd64_def by (rule round_to_exact)
qed

lemma nearest_eval:
  assumes "2 powi k \<le> \<bar>x\<bar>" and "\<bar>x\<bar> < 2 powi (k + 1)"
    and "e = max (k - (int p - 1)) emin" and "rne (x / 2 powi e) = n"
  shows "nearest p emin x = of_int n * 2 powi e"
proof -
  have "\<lfloor>log 2 \<bar>x\<bar>\<rfloor> = k" using assms(1,2) by (rule floor_log2_eq)
  then have "expo p emin x = e" by (simp add: expo_def assms(3))
  moreover have "(0::real) < 2 powi k" by simp
  then have "0 < \<bar>x\<bar>" using assms(1) by (rule less_le_trans)
  then have "x \<noteq> 0" by simp
  ultimately show ?thesis by (simp add: nearest_def assms(4))
qed

lemma js_095: "js 0.95 = Fin (8556839292003942 / 2 ^ 53)"
proof -
  have "nearest 53 (- 1074) 0.95 = of_int 8556839292003942 * 2 powi (- 53)"
    by (rule nearest_eval [where k = "- 1"]) (simp_all add: rne_def Let_def)
  then show ?thesis by (simp add: js_def rnd64_def round_to_def power_int_minus divide_simps)
qed

section \<open>Binary64 values\<close>

lemma rnd64_int: "\<bar>m\<bar> < 2 ^ 53 \<Longrightarrow> rnd64 (of_int m) = Fin (of_int m)"
  using js_int [of m] by (simp add: js_def)

lemma rnd64_0: "rnd64 0 = Fin 0" using rnd64_int [of 0] by simp

lemma rnd64_1: "rnd64 1 = Fin 1" using rnd64_int [of 1] by simp

lemma rnd64_5: "rnd64 5 = Fin 5" using rnd64_int [of 5] by simp

lemma rnd64_25: "rnd64 25 = Fin 25" using rnd64_int [of 25] by simp

lemma rnd64_30: "rnd64 30 = Fin 30" using rnd64_int [of 30] by simp

lemma rnd64_m1: "rnd64 (- 1) = Fin (- 1)" using rnd64_int [of "- 1"] by simp

lemma rnd64_m25: "rnd64 (- 25) = Fin (- 25)" using rnd64_int [of "- 25"] by simp

lemma rnd64_m30: "rnd64 (- 30) = Fin (- 30)" using rnd64_int [of "- 30"] by simp

lemma nearest_abs: "\<bar>nearest p emin x\<bar> = nearest p emin \<bar>x\<bar>"
proof (cases "0 \<le> x")
  case True
  then show ?thesis using nearest_nonneg [of x p emin] by simp
next
  case False
  then have "0 \<le> nearest p emin (- x)" by (intro nearest_nonneg) simp
  then show ?thesis using False by (simp add: nearest_minus)
qed

lemma nearest_abs_le:
  assumes "1 \<le> p" and "\<bar>x\<bar> \<le> B" and "representable p emin B"
  shows "\<bar>nearest p emin x\<bar> \<le> B"
proof -
  have "nearest p emin \<bar>x\<bar> \<le> nearest p emin B" using assms(1,2) by (rule nearest_mono)
  then show ?thesis by (simp add: nearest_abs nearest_exact [OF assms(3)])
qed

lemma rnd64_Fin: "\<bar>nearest 53 (- 1074) x\<bar> < 2 powi 1024 \<Longrightarrow> rnd64 x = Fin (nearest 53 (- 1074) x)"
  unfolding rnd64_def by (rule round_to_Fin)

lemma rnd64_bounded:
  assumes "\<bar>x\<bar> \<le> B" and "is_double B"
  shows "rnd64 x = Fin (nearest 53 (- 1074) x)" and "\<bar>nearest 53 (- 1074) x\<bar> \<le> B"
proof -
  show b: "\<bar>nearest 53 (- 1074) x\<bar> \<le> B"
    using assms unfolding is_double_def by (intro nearest_abs_le) simp_all
  have "\<bar>B\<bar> < 2 powi 1024" using assms(2) by (simp add: is_double_def)
  then have "\<bar>nearest 53 (- 1074) x\<bar> < 2 powi 1024" using b by linarith
  then show "rnd64 x = Fin (nearest 53 (- 1074) x)" by (rule rnd64_Fin)
qed

lemma is_double_int: "\<bar>m\<bar> < 2 ^ 53 \<Longrightarrow> is_double (of_int m)"
proof -
  assume m: "\<bar>m\<bar> < 2 ^ 53"
  then have "representable 53 (- 1074) (of_int m)" by (intro representable_int) simp_all
  moreover have "\<bar>real_of_int m\<bar> < 2 ^ 53" using m by (metis of_int_abs of_int_less_numeral_power_cancel_iff)
  then have "\<bar>real_of_int m\<bar> < 2 powi 1024" by (simp add: power_int_def)
  ultimately show ?thesis by (simp add: is_double_def)
qed

lemma is_double_1: "is_double 1" using is_double_int [of 1] by simp

lemma nearest_1: "nearest 53 (- 1074) 1 = 1"
  using is_double_1 by (simp add: is_double_def nearest_exact)

lemma nearest_unit:
  assumes "0 \<le> x" and "x \<le> 1"
  shows "0 \<le> nearest 53 (- 1074) x" and "nearest 53 (- 1074) x \<le> 1"
proof -
  show "0 \<le> nearest 53 (- 1074) x" using assms(1) by (rule nearest_nonneg)
  have "nearest 53 (- 1074) x \<le> nearest 53 (- 1074) 1" using assms(2) by (intro nearest_mono) simp_all
  then show "nearest 53 (- 1074) x \<le> 1" by (simp add: nearest_1)
qed

lemma rnd64_unit:
  assumes "0 \<le> x" and "x \<le> 1"
  shows "rnd64 x = Fin (nearest 53 (- 1074) x)"
  using assms by (intro rnd64_bounded(1) [where B = 1]) (simp_all add: is_double_1)

lemma representable_abs: "representable p emin x \<Longrightarrow> representable p emin \<bar>x\<bar>"
proof -
  assume "representable p emin x"
  then obtain m e where x: "x = of_int m * 2 powi e" and m: "\<bar>m\<bar> < 2 ^ p" and e: "emin \<le> e"
    unfolding representable_def by blast
  have "\<bar>x\<bar> = of_int \<bar>m\<bar> * 2 powi e" by (simp add: x abs_mult)
  moreover have "\<bar>\<bar>m\<bar>\<bar> < 2 ^ p" using m by simp
  ultimately show ?thesis unfolding representable_def using e by blast
qed

lemma is_double_abs: "is_double x \<Longrightarrow> is_double \<bar>x\<bar>"
  by (simp add: is_double_def representable_abs)

lemma expo_subnormal:
  assumes "x \<noteq> 0" and "\<bar>x\<bar> < 2 powi (emin + int p)"
  shows "expo p emin x = emin"
proof -
  have "2 powi \<lfloor>log 2 \<bar>x\<bar>\<rfloor> \<le> \<bar>x\<bar>" using assms(1) by (rule log2_bounds(1))
  then have "(2::real) powi \<lfloor>log 2 \<bar>x\<bar>\<rfloor> < 2 powi (emin + int p)" using assms(2) by linarith
  then have "\<lfloor>log 2 \<bar>x\<bar>\<rfloor> < emin + int p"
    by (metis linorder_not_less one_le_numeral power_int_increasing)
  then show ?thesis unfolding expo_def by linarith
qed

lemma rne_one: "1 / 2 < q \<Longrightarrow> q \<le> 1 \<Longrightarrow> rne q = 1"
proof (cases "q = 1")
  case True
  then show ?thesis using rne_of_int [of 1] by simp
next
  case False
  assume q: "1 / 2 < q" "q \<le> 1"
  then have "\<lfloor>q\<rfloor> = 0" using False by (intro floor_unique) simp_all
  then show ?thesis using q by (simp add: rne_def Let_def)
qed

lemma nearest_smallest:
  assumes "1 \<le> p" and "1 / 2 < s" and "s \<le> 1"
  shows "nearest p emin (2 powi emin * s) = 2 powi emin"
proof -
  define x where "x = 2 powi emin * s"
  have x0: "x \<noteq> 0" using assms(2) by (simp add: x_def)
  have "\<bar>x\<bar> \<le> 2 powi emin" using assms(2,3) by (simp add: x_def abs_mult)
  moreover have "(2::real) powi emin < 2 powi (emin + int p)"
    using assms(1) by (intro power_int_strict_increasing) simp_all
  ultimately have "\<bar>x\<bar> < 2 powi (emin + int p)" by linarith
  then have e: "expo p emin x = emin" using x0 by (intro expo_subnormal)
  have "x / 2 powi emin = s" by (simp add: x_def)
  then have "rne (x / 2 powi expo p emin x) = 1" unfolding e using assms(2,3) by (simp only: rne_one)
  then show ?thesis unfolding x_def [symmetric] using x0 by (simp add: nearest_def e)
qed

lemma representable_pow: "emin \<le> e \<Longrightarrow> 1 \<le> p \<Longrightarrow> representable p emin (2 powi e)"
proof -
  assume "emin \<le> e" "1 \<le> p"
  then have "(2::real) powi e = of_int 1 * 2 powi e \<and> \<bar>1::int\<bar> < 2 ^ p \<and> emin \<le> e"
    by (simp add: one_less_power)
  then show ?thesis unfolding representable_def by blast
qed

lemma representable_lower:
  assumes "representable p emin x" and "x \<noteq> 0"
  shows "2 powi emin \<le> \<bar>x\<bar>"
proof -
  from assms(1) obtain m e where x: "x = of_int m * 2 powi e" and e: "emin \<le> e"
    unfolding representable_def by blast
  have "m \<noteq> 0" using assms(2) x by auto
  then have "1 \<le> \<bar>m\<bar>" by linarith
  then have "1 \<le> \<bar>real_of_int m\<bar>" by (simp flip: of_int_abs)
  moreover have "(2::real) powi emin \<le> 2 powi e" using e by (intro power_int_increasing) simp_all
  ultimately have "1 * 2 powi emin \<le> \<bar>real_of_int m\<bar> * 2 powi e" by (intro mult_mono) simp_all
  then show ?thesis by (simp add: x abs_mult)
qed

lemma nearest_nonzero:
  assumes "1 \<le> p" and "2 powi (emin - 1) < \<bar>x\<bar>"
  shows "nearest p emin x \<noteq> 0"
proof -
  have "0 < nearest p emin \<bar>x\<bar>"
  proof (cases "2 powi emin \<le> \<bar>x\<bar>")
    case True
    then have "nearest p emin (2 powi emin) \<le> nearest p emin \<bar>x\<bar>"
      using assms(1) by (intro nearest_mono)
    moreover have "nearest p emin (2 powi emin) = 2 powi emin"
      using assms(1) by (intro nearest_exact representable_pow) simp_all
    moreover have "(0::real) < 2 powi emin" by simp
    ultimately show ?thesis by linarith
  next
    case False
    define s where "s = \<bar>x\<bar> / 2 powi emin"
    have "(2::real) powi (emin - 1) = 2 powi emin / 2" by (simp add: power_int_diff)
    then have "1 / 2 < s" using assms(2) by (simp add: s_def pos_less_divide_eq)
    moreover have "s \<le> 1" using False by (simp add: s_def pos_divide_le_eq)
    ultimately have "nearest p emin (2 powi emin * s) = 2 powi emin"
      using assms(1) by (intro nearest_smallest)
    moreover have "2 powi emin * s = \<bar>x\<bar>" by (simp add: s_def)
    ultimately show ?thesis by simp
  qed
  then show ?thesis using nearest_abs [of p emin x] by auto
qed

lemma nearest_error:
  assumes "1 \<le> p"
  shows "\<bar>nearest p emin x - x\<bar> \<le> 2 powi (- int p) * \<bar>x\<bar> + 2 powi (emin - 1)"
proof (cases "x = 0")
  case True
  then show ?thesis by (simp add: nearest_def)
next
  case False
  define k where "k = \<lfloor>log 2 \<bar>x\<bar>\<rfloor>"
  define e where "e = expo p emin x"
  define n where "n = rne (x / 2 powi e)"
  have nx: "nearest p emin x = of_int n * 2 powi e" using False by (simp add: nearest_def e_def n_def)
  have "\<bar>of_int n - x / 2 powi e\<bar> \<le> 1 / 2" unfolding n_def by (rule rne_err)
  then have "\<bar>of_int n - x / 2 powi e\<bar> * 2 powi e \<le> 1 / 2 * 2 powi e"
    by (intro mult_right_mono) simp_all
  moreover have "\<bar>of_int n - x / 2 powi e\<bar> * 2 powi e = \<bar>of_int n * 2 powi e - x\<bar>"
  proof -
    have "(of_int n - x / 2 powi e) * 2 powi e = of_int n * 2 powi e - x"
      by (simp add: algebra_simps)
    then have "\<bar>of_int n * 2 powi e - x\<bar> = \<bar>of_int n - x / 2 powi e\<bar> * \<bar>(2::real) powi e\<bar>"
      by (metis abs_mult)
    then show ?thesis by simp
  qed
  moreover have "1 / 2 * (2::real) powi e = 2 powi (e - 1)" by (simp add: power_int_diff)
  ultimately have err: "\<bar>nearest p emin x - x\<bar> \<le> 2 powi (e - 1)" by (simp add: nx)
  have e': "e = max (k - (int p - 1)) emin" by (simp add: e_def expo_def k_def)
  have lo: "2 powi k \<le> \<bar>x\<bar>" using log2_bounds(1) [OF False] by (simp add: k_def)
  show ?thesis
  proof (cases "e = emin")
    case True
    have "0 \<le> 2 powi (- int p) * \<bar>x\<bar>" by simp
    moreover have "(2::real) powi (e - 1) = 2 powi (emin - 1)" by (simp add: True)
    ultimately show ?thesis using err by linarith
  next
    case False
    then have "e - 1 = - int p + k" using e' by linarith
    then have "(2::real) powi (e - 1) = 2 powi (- int p + k)" by simp
    also have "\<dots> = 2 powi (- int p) * 2 powi k" by (rule power_int_add) simp
    finally have "(2::real) powi (e - 1) = 2 powi (- int p) * 2 powi k" .
    also have "\<dots> \<le> 2 powi (- int p) * \<bar>x\<bar>" using lo by (intro mult_left_mono) simp_all
    finally have "2 powi (e - 1) \<le> 2 powi (- int p) * \<bar>x\<bar>" .
    moreover have "(0::real) \<le> 2 powi (emin - 1)" by simp
    ultimately show ?thesis using err by linarith
  qed
qed

lemma rnd64_FinD: "rnd64 x = Fin y \<Longrightarrow> y = nearest 53 (- 1074) x"
  by (auto simp: rnd64_def round_to_def Let_def split: if_splits)

lemma rnd64_error:
  assumes "rnd64 x = Fin y"
  shows "\<bar>y - x\<bar> \<le> 2 powi (- 53) * \<bar>x\<bar> + 2 powi (- 1075)"
proof -
  have y: "y = nearest 53 (- 1074) x" using assms by (rule rnd64_FinD)
  have "\<bar>nearest 53 (- 1074) x - x\<bar> \<le> 2 powi (- int 53) * \<bar>x\<bar> + 2 powi (- 1074 - 1)"
    by (rule nearest_error) simp
  moreover have "- int 53 = - 53" "- 1074 - 1 = (- 1075 :: int)" by simp_all
  ultimately show ?thesis by (simp only: y)
qed

lemma rne_near: "\<bar>q - of_int n\<bar> < 1 / 2 \<Longrightarrow> rne q = n"
proof -
  assume a: "\<bar>q - of_int n\<bar> < 1 / 2"
  have "\<bar>of_int (rne q) - q\<bar> \<le> 1 / 2" by (rule rne_err)
  then have "\<bar>real_of_int (rne q) - of_int n\<bar> < 1" using a by linarith
  then have "\<bar>real_of_int (rne q - n)\<bar> < 1" by simp
  then have "\<bar>rne q - n\<bar> < 1" by (simp flip: of_int_abs)
  then show ?thesis by linarith
qed

lemma rnd64_double: "is_double b \<Longrightarrow> rnd64 b = Fin b"
  unfolding rnd64_def is_double_def by (intro round_to_exact) simp_all

section \<open>The trail buffer\<close>

lemma length_store: "length (store arr i v) = length arr"
  by (simp add: store_def)

lemma nth_store:
  "n < length arr \<Longrightarrow> store arr i v ! n = (if n = i then fround v else arr ! n)"
  by (simp add: store_def)

lemma length_shiftTrail: "length (shiftTrail j arr) = length arr"
  by (induction j arbitrary: arr) (simp_all add: Let_def length_store)

lemma nth_shiftTrail:
  "(j + 1) * 3 \<le> length arr \<Longrightarrow> n < length arr \<Longrightarrow>
   shiftTrail j arr ! n = (if 3 \<le> n \<and> n < (j + 1) * 3 then fround (arr ! (n - 3)) else arr ! n)"
proof (induction j arbitrary: arr)
  case 0
  then show ?case by auto
next
  case (Suc j)
  define arr1 where "arr1 = store arr (Suc j * 3) (load arr (j * 3))"
  define arr2 where "arr2 = store arr1 (Suc j * 3 + 1) (load arr1 (j * 3 + 1))"
  define arr3 where "arr3 = store arr2 (Suc j * 3 + 2) (load arr2 (j * 3 + 2))"
  have len: "length arr1 = length arr" "length arr2 = length arr" "length arr3 = length arr"
    by (simp_all add: arr1_def arr2_def arr3_def length_store)
  have step: "shiftTrail (Suc j) arr = shiftTrail j arr3"
    by (simp add: Let_def arr1_def arr2_def arr3_def)
  have L: "Suc j * 3 + 2 < length arr" using Suc.prems(1) by simp
  have n3: "arr3 ! m = (if m = Suc j * 3 then fround (arr ! (j * 3))
                        else if m = Suc j * 3 + 1 then fround (arr ! (j * 3 + 1))
                        else if m = Suc j * 3 + 2 then fround (arr ! (j * 3 + 2))
                        else arr ! m)" if "m < length arr" for m
    using that L by (simp add: arr1_def arr2_def arr3_def nth_store length_store load_def)
  have IH: "shiftTrail j arr3 ! n = (if 3 \<le> n \<and> n < (j + 1) * 3 then fround (arr3 ! (n - 3)) else arr3 ! n)"
    using Suc.IH [of arr3] Suc.prems len by simp
  show ?case
    unfolding step IH using Suc.prems(2) L
    by (auto simp: n3)
qed

lemma trail_update:
  assumes "trailGeometry a = Some b"
  shows "trail (update h (Enabled a)) =
    store (store (store (shiftTrail (trailLength a - 1) (array b)) 0
      (vx (mouseToWorld h (camera a) (mouseX a) (mouseY a) (js 5)))) 1
      (vy (mouseToWorld h (camera a) (mouseX a) (mouseY a) (js 5)))) 2
      (vz (mouseToWorld h (camera a) (mouseX a) (mouseY a) (js 5)))"
  using assms by (simp add: frame_def updateCursorTrail_def Let_def)

lemma nth_trail_update:
  assumes "trailGeometry a = Some b" and "length (array b) = trailLength a * 3"
    and "0 < trailLength a" and "n < length (array b)"
  shows "trail (update h (Enabled a)) ! n =
    (if n = 0 then fround (vx (mouseToWorld h (camera a) (mouseX a) (mouseY a) (js 5)))
     else if n = 1 then fround (vy (mouseToWorld h (camera a) (mouseX a) (mouseY a) (js 5)))
     else if n = 2 then fround (vz (mouseToWorld h (camera a) (mouseX a) (mouseY a) (js 5)))
     else fround (array b ! (n - 3)))"
proof -
  have "(trailLength a - 1 + 1) * 3 \<le> length (array b)" using assms(2,3) by simp
  then have "shiftTrail (trailLength a - 1) (array b) ! n =
      (if 3 \<le> n \<and> n < (trailLength a - 1 + 1) * 3 then fround (array b ! (n - 3)) else array b ! n)"
    using assms(4) by (rule nth_shiftTrail)
  then show ?thesis
    unfolding trail_update [OF assms(1)] using assms(2,3,4)
    by (simp add: nth_store length_store length_shiftTrail)
qed

lemma length_trail_update:
  assumes "trailGeometry a = Some b"
  shows "length (trail (update h (Enabled a))) = length (array b)"
  unfolding trail_update [OF assms]
  by (simp add: length_store length_shiftTrail)

text \<open>
  Claim C1. Let the trail array of an enabled scene hold \<open>trailLength\<close> samples of three
  binary32 values each. One call of \<^verbatim>\<open>update()\<close> keeps the array's length, writes the
  projection of the stored pointer sample \<open>(mouseX, mouseY)\<close> at depth \<open>z = 5\<close> into
  slot 0 (each coordinate converted to binary32 by the store into the
  \<^verbatim>\<open>Float32Array\<close>), and gives every slot \<open>i\<close> with \<open>0 < i < trailLength\<close> the
  previous contents of slot \<open>i - 1\<close>; in particular slot 1 receives what slot 0 held.
\<close>

theorem update_shifts_trail:
  assumes "trailGeometry a = Some b" and "length (array b) = trailLength a * 3"
    and "\<forall>v \<in> set (array b). fround v = v" and "0 < trailLength a"
  shows "length (trail (update h (Enabled a))) = length (array b)
    \<and> slot (trail (update h (Enabled a))) 0
        = fround3 (mouseToWorld h (camera a) (mouseX a) (mouseY a) (js 5))
    \<and> (\<forall>i. 0 < i \<and> i < trailLength a \<longrightarrow>
          slot (trail (update h (Enabled a))) i = slot (array b) (i - 1))"
proof -
  define t where "t = trail (update h (Enabled a))"
  define w where "w = mouseToWorld h (camera a) (mouseX a) (mouseY a) (js 5)"
  have len: "length t = length (array b)"
    unfolding t_def using assms(1) by (rule length_trail_update)
  have n: "t ! n = (if n = 0 then fround (vx w) else if n = 1 then fround (vy w)
                    else if n = 2 then fround (vz w) else fround (array b ! (n - 3)))"
    if "n < length (array b)" for n
    unfolding t_def w_def using assms(1,2,4) that by (rule nth_trail_update)
  have s0: "slot t 0 = fround3 w"
    using assms(2,4) by (simp add: slot_def fround3_def n)
  have si: "slot t i = slot (array b) (i - 1)" if i: "0 < i \<and> i < trailLength a" for i
  proof -
    have r: "i * 3 + 2 < length (array b)" using i assms(2) by simp
    have f: "fround (array b ! m) = array b ! m" if "m < length (array b)" for m
      using assms(3) that by simp
    obtain j where j: "i = Suc j" using i by (cases i) auto
    show ?thesis using r by (simp add: slot_def n f j)
  qed
  show ?thesis
    unfolding t_def [symmetric] w_def [symmetric] using len s0 si by blast
qed

text \<open>The hypotheses of claim C1 hold of the sample scene, whose slot 1 receives slot 0.\<close>

theorem update_shifts_trail_witness:
  "trailGeometry sample_active = Some \<lparr>array = [Fin 0, Fin 0, Fin 0, Fin 0, Fin 0, Fin 0], needsUpdate = False\<rparr>
   \<and> length [Fin 0, Fin 0, Fin 0, Fin 0, Fin 0, Fin 0 :: jsnum] = trailLength sample_active * 3
   \<and> list_all (\<lambda>v. fround v = v) [Fin 0, Fin 0, Fin 0, Fin 0, Fin 0, Fin 0]
   \<and> 0 < trailLength sample_active
   \<and> slot (trail (update sample_host (Enabled sample_active))) 1
       = slot [Fin 0, Fin 0, Fin 0, Fin 0, Fin 0, Fin 0] 0"
proof -
  let ?b = "\<lparr>array = [Fin 0, Fin 0, Fin 0, Fin 0, Fin 0, Fin 0], needsUpdate = False\<rparr>"
  have 1: "trailGeometry sample_active = Some ?b" by (simp add: sample_active_def)
  have 2: "length (array ?b) = trailLength sample_active * 3" by (simp add: sample_active_def)
  have 3: "\<forall>v \<in> set (array ?b). fround v = v"
    by (simp add: rnd32_def round_to_def nearest_def)
  have 4: "0 < trailLength sample_active" by (simp add: sample_active_def)
  show ?thesis
    using update_shifts_trail [OF 1 2 3 4, of sample_host] 1 2 3 4 by simp
qed

section \<open>The disabled scene\<close>

lemma fold_perform_disabled:
  "\<exists>props'. fold perform cs (Disabled props) = Disabled props'
     \<and> dom props' \<subseteq> dom props \<union> {''scrollProgress'', ''mouseX'', ''mouseY''}"
proof (induction cs arbitrary: props)
  case Nil
  then show ?case by auto
next
  case (Cons c cs)
  obtain q where q: "perform c (Disabled props) = Disabled q"
    and dq: "dom q \<subseteq> dom props \<union> {''scrollProgress'', ''mouseX'', ''mouseY''}"
    by (cases c) auto
  from Cons.IH [of q] obtain r where "fold perform cs (Disabled q) = Disabled r"
    and "dom r \<subseteq> dom q \<union> {''scrollProgress'', ''mouseX'', ''mouseY''}" by blast
  then show ?case using q dq by auto
qed

text \<open>
  Claim C2, as stated, fails: on the scene constructed without a canvas,
  \<^verbatim>\<open>setScroll(0)\<close> does change the state of the object, for it creates the property
  \<^verbatim>\<open>scrollProgress\<close>.
\<close>

theorem setScroll_changes_disabled_scene:
  "setScroll (Fin 0) (construct sample_host None) \<noteq> construct sample_host None"
  by (simp add: construct_def)

text \<open>
  Claim C2, amended. A scene constructed without a canvas stays disabled under every
  sequence of public calls: it never holds a rendering object, no call on a renderer,
  composer or geometry is ever made, and the only properties the calls create are
  \<^verbatim>\<open>scrollProgress\<close>, \<^verbatim>\<open>mouseX\<close> and \<^verbatim>\<open>mouseY\<close>. On a disabled scene
  \<^verbatim>\<open>update\<close>, \<^verbatim>\<open>resize\<close> and \<^verbatim>\<open>setVelocity\<close> change nothing, while
  \<^verbatim>\<open>setScroll\<close> stores the clamped progress and \<^verbatim>\<open>setMouse\<close> the pointer, which
  have no guard. Every operation is a total function of the model: none of the
  statements the source executes on a disabled scene can throw.
\<close>

theorem disabled_scene_stays_disabled:
  "(\<exists>props. fold perform cs (construct h None) = Disabled props
       \<and> dom props \<subseteq> {''scrollProgress'', ''mouseX'', ''mouseY''})
   \<and> \<not> enabled (fold perform cs (construct h None))
   \<and> gl_calls (fold perform cs (construct h None)) = []
   \<and> update h' (Disabled props) = Disabled props
   \<and> resize h' w ht (Disabled props) = Disabled props
   \<and> setVelocity v (Disabled props) = Disabled props
   \<and> setScroll p (Disabled props)
       = Disabled (props(''scrollProgress'' \<mapsto> Math_max (js 0) (Math_min (js 1) p)))
   \<and> setMouse x y (Disabled props) = Disabled (props(''mouseX'' \<mapsto> x, ''mouseY'' \<mapsto> y))"
proof -
  obtain q where q: "fold perform cs (Disabled Map.empty) = Disabled q"
    and dq: "dom q \<subseteq> dom (Map.empty :: string \<rightharpoonup> jsnum) \<union> {''scrollProgress'', ''mouseX'', ''mouseY''}"
    using fold_perform_disabled [of cs Map.empty] by blast
  have c: "construct h None = Disabled Map.empty" by (simp add: construct_def)
  show ?thesis unfolding c q using dq by simp
qed

section \<open>Resize\<close>

text \<open>
  Claim C6. For all viewport sizes, resizing to \<open>(W2, H2)\<close> and then to \<open>(W1, H1)\<close>
  yields the background plane that a single resize to \<open>(W1, H1)\<close> yields: the plane's
  width and height are a function of the width and height passed to the last
  \<^verbatim>\<open>resize\<close> alone, namely the one displayed.
\<close>

theorem resize_round_trip:
  "planeSize (resize h W1 H1 (resize h' W2 H2 (Enabled a))) = planeSize (resize h W1 H1 (Enabled a))
   \<and> planeSize (resize h W1 H1 (Enabled a))
       = Some (js 2 * Math_tan h (degToRad h (js 45) / js 2) * (js 30 + js 50) * (W1 / H1) * js 1.2,
               js 2 * Math_tan h (degToRad h (js 45) / js 2) * (js 30 + js 50) * js 1.2)"
  by (simp add: Let_def)

section \<open>What a frame leaves alone\<close>

lemma updateCursorTrail_fields:
  "scrollProgress (updateCursorTrail h a) = scrollProgress a"
  "mouseX (updateCursorTrail h a) = mouseX a"
  "mouseY (updateCursorTrail h a) = mouseY a"
  "trailLength (updateCursorTrail h a) = trailLength a"
  "geometries (updateCursorTrail h a) = geometries a"
  "bgUniforms (updateCursorTrail h a) = bgUniforms a"
  "camera (updateCursorTrail h a) = camera a"
  "bgMesh (updateCursorTrail h a) = bgMesh a"
  "calls (updateCursorTrail h a) = calls a"
  by (simp_all add: updateCursorTrail_def Let_def split: option.splits)

lemma geometries_frame:
  "geometries (frame h a) = map (animateWireframe h (mouseX a) (mouseY a)) (geometries a)"
  by (simp add: frame_def Let_def updateCursorTrail_fields)

text \<open>
  Claim C9. \<^verbatim>\<open>update()\<close> leaves \<^verbatim>\<open>scrollProgress\<close>, \<^verbatim>\<open>mouseX\<close>, \<^verbatim>\<open>mouseY\<close>,
  \<^verbatim>\<open>trailLength\<close> and every object's \<^verbatim>\<open>basePosition\<close> and \<^verbatim>\<open>speed\<close> as they
  were, and sets every object's \<open>x\<close> and \<open>y\<close> position to the base position plus the
  parallax offset, plus on \<open>y\<close> the sine bob scaled by \<open>0.15\<close>: a value computed from
  the base position, the pointer, the clock and the speed, in which the previous
  position does not occur.
\<close>

theorem update_keeps_inputs_and_constants:
  "update h (Enabled a) = Enabled (frame h a)
   \<and> scrollProgress (frame h a) = scrollProgress a
   \<and> mouseX (frame h a) = mouseX a
   \<and> mouseY (frame h a) = mouseY a
   \<and> trailLength (frame h a) = trailLength a
   \<and> map basePosition (geometries (frame h a)) = map basePosition (geometries a)
   \<and> map speed (geometries (frame h a)) = map speed (geometries a)
   \<and> map (\<lambda>m. (vx (position m), vy (position m))) (geometries (frame h a))
       = map (\<lambda>m. (vx (basePosition m) + mouseX a * parallaxStrength m,
                    vy (basePosition m) + mouseY a * parallaxStrength m
                      + Math_sin h (elapsed h * js 0.3 * speed m + speed m * js 10) * js 0.15))
           (geometries a)"
proof -
  have 1: "scrollProgress (frame h a) = scrollProgress a" "mouseX (frame h a) = mouseX a"
    "mouseY (frame h a) = mouseY a" "trailLength (frame h a) = trailLength a"
    by (simp_all add: frame_def Let_def updateCursorTrail_fields)
  have 2: "basePosition (animateWireframe h mx my m) = basePosition m"
    "speed (animateWireframe h mx my m) = speed m"
    "vx (position (animateWireframe h mx my m)) = vx (basePosition m) + mx * parallaxStrength m"
    "vy (position (animateWireframe h mx my m)) = vy (basePosition m) + my * parallaxStrength m
        + Math_sin h (elapsed h * js 0.3 * speed m + speed m * js 10) * js 0.15"
    for mx my m
    by (simp_all add: animateWireframe_def Let_def)
  show ?thesis
    by (simp add: 1 geometries_frame 2 comp_def)
qed

section \<open>The trail from construction on\<close>

lemma rnd32_int: "\<bar>m\<bar> < 2 ^ 24 \<Longrightarrow> rnd32 (of_int m) = Fin (of_int m)"
proof -
  assume m: "\<bar>m\<bar> < 2 ^ 24"
  then have "representable 24 (- 149) (of_int m)" by (intro representable_int) simp_all
  moreover have "\<bar>real_of_int m\<bar> < 2 ^ 24" using m by (metis of_int_abs of_int_less_numeral_power_cancel_iff)
  then have "\<bar>real_of_int m\<bar> < 2 powi 128" by (simp add: power_int_def)
  ultimately show ?thesis unfolding rnd32_def by (rule round_to_exact)
qed

lemma js_0: "js 0 = Fin 0" using js_int [of 0] by simp

lemma js_1: "js 1 = Fin 1" using js_int [of 1] by simp

lemma js_100: "js 100 = Fin 100" using js_int [of 100] by simp

lemma rnd32_0: "rnd32 0 = Fin 0" using rnd32_int [of 0] by simp

lemma rnd32_m100: "rnd32 (- 100) = Fin (- 100)" using rnd32_int [of "- 100"] by simp

lemma round_to_idem:
  assumes "1 \<le> p" and "round_to p emin emax x = Fin r"
  shows "round_to p emin emax r = Fin r"
proof -
  have r: "r = nearest p emin x" and b: "\<bar>nearest p emin x\<bar> < 2 powi emax"
    using assms(2) by (auto simp: round_to_def Let_def split: if_splits)
  have "nearest p emin r = r" unfolding r using assms(1) by (rule nearest_idem)
  then show ?thesis using b r by (simp add: round_to_def)
qed

lemma fround_idem: "fround (fround v) = fround v"
proof (cases v)
  case (Fin a)
  show ?thesis
  proof (cases "rnd32 a")
    case (Fin r)
    then have "rnd32 r = Fin r" unfolding rnd32_def by (intro round_to_idem) simp_all
    then show ?thesis using Fin \<open>v = Fin a\<close> by simp
  qed (simp_all add: \<open>v = Fin a\<close>)
qed simp_all

lemma store3_append:
  assumes "length xs = m"
  shows "store (store (store (xs @ a # b # c # ys) m u) (m + 1) v) (m + 2) w
    = xs @ fround u # fround v # fround w # ys"
  unfolding assms [symmetric] by (simp add: store_def list_update_append)

lemma fold_init:
  "k \<le> n \<Longrightarrow>
   fold (\<lambda>i positions.
      let i3 = i * 3;
          positions = store positions i3 (js 0);
          positions = store positions (i3 + 1) (js 0)
      in store positions (i3 + 2) (- js 100)) [0..<k] (replicate (n * 3) (Fin 0))
   = concat (replicate k (coords sentinel)) @ replicate ((n - k) * 3) (Fin 0)"
proof (induction k)
  case 0
  then show ?case by simp
next
  case (Suc k)
  let ?pre = "concat (replicate k (coords sentinel))"
  have lp: "length ?pre = k * 3" by (simp add: coords_def length_concat sum_list_replicate)
  obtain d where d: "n - k = Suc d" using Suc.prems by (metis Suc_diff_Suc Suc_le_lessD)
  have nd: "n - Suc k = d" using d by simp
  have "(n - k) * 3 = Suc (Suc (Suc (d * 3)))" using d by simp
  then have rep: "replicate ((n - k) * 3) (Fin 0) = Fin 0 # Fin 0 # Fin 0 # replicate (d * 3) (Fin 0)"
    by (simp only: replicate_Suc)
  have "store (store (store (?pre @ replicate ((n - k) * 3) (Fin 0)) (k * 3) (js 0)) (k * 3 + 1) (js 0))
          (k * 3 + 2) (- js 100)
        = ?pre @ coords sentinel @ replicate (d * 3) (Fin 0)"
    unfolding rep store3_append [OF lp]
    by (simp add: js_0 js_100 rnd32_0 rnd32_m100 coords_def sentinel_def Vector3_def)
  moreover have "concat (replicate (Suc k) (coords sentinel)) = ?pre @ coords sentinel"
    by (simp add: replicate_append_same [symmetric])
  ultimately show ?case using Suc by (simp add: Let_def nd)
qed

lemma array_initCursorTrail:
  "array (initCursorTrail n) = concat (replicate n (coords sentinel))"
  using fold_init [of n n] by (simp add: initCursorTrail_def Let_def)

lemma trail_update_list:
  assumes "trailGeometry a = Some b" and "length (array b) = trailLength a * 3"
    and "0 < trailLength a" and "\<forall>v \<in> set (array b). fround v = v"
  shows "trail (update h (Enabled a)) =
    coords (fround3 (mouseToWorld h (camera a) (mouseX a) (mouseY a) (js 5)))
      @ take (length (array b) - 3) (array b)"
proof (rule nth_equalityI)
  define w where "w = mouseToWorld h (camera a) (mouseX a) (mouseY a) (js 5)"
  have l3: "3 \<le> length (array b)" using assms(2,3) by simp
  show len: "length (trail (update h (Enabled a))) =
      length (coords (fround3 (mouseToWorld h (camera a) (mouseX a) (mouseY a) (js 5)))
        @ take (length (array b) - 3) (array b))"
    using l3 by (simp add: length_trail_update [OF assms(1)] coords_def del: update.simps trail.simps)
  fix n assume "n < length (trail (update h (Enabled a)))"
  then have n: "n < length (array b)" by (simp only: length_trail_update [OF assms(1)])
  have f: "fround (array b ! (n - 3)) = array b ! (n - 3)"
    using assms(4) n by (simp add: less_imp_diff_less)
  have c: "coords (fround3 w) = [fround (vx w), fround (vy w), fround (vz w)]"
    by (simp add: coords_def fround3_def Vector3_def)
  show "trail (update h (Enabled a)) ! n =
      (coords (fround3 (mouseToWorld h (camera a) (mouseX a) (mouseY a) (js 5)))
        @ take (length (array b) - 3) (array b)) ! n"
    unfolding nth_trail_update [OF assms(1,2,3) n] w_def [symmetric] c f
    using n by (auto simp: nth_append nth_Cons' numeral_3_eq_3)
qed

lemma trailLength_frame: "trailLength (frame h a) = trailLength a"
  by (simp add: frame_def Let_def updateCursorTrail_fields)

lemma trailGeometry_frame:
  "trailGeometry a = Some b \<Longrightarrow> \<exists>b'. trailGeometry (frame h a) = Some b'"
  by (simp add: frame_def Let_def updateCursorTrail_def)

lemma perform_keeps_trail:
  assumes "\<forall>h. c \<noteq> Update h"
  shows "\<exists>a'. perform c (Enabled a) = Enabled a' \<and> trailLength a' = trailLength a
    \<and> trailGeometry a' = trailGeometry a"
  using assms by (cases c) (simp_all add: Let_def)

lemma projections_other:
  assumes "\<forall>h. c \<noteq> Update h"
  shows "projections (c # cs) s = projections cs (perform c s)"
  using assms by (cases c; cases s) simp_all

lemma coords_fround3_fixed:
  "fround3 p = p \<Longrightarrow> v \<in> set (coords p) \<Longrightarrow> fround v = v"
  by (cases p) (auto simp: fround3_def coords_def Vector3_def)

lemma fround3_idem: "fround3 (fround3 w) = fround3 w"
  by (simp add: fround3_def Vector3_def fround_idem)

lemma sentinel_fixed: "fround3 sentinel = sentinel"
  by (simp add: fround3_def sentinel_def Vector3_def rnd32_0 rnd32_m100)

lemma length_flat: "length (concat (map coords ps)) = length ps * 3"
  by (induction ps) (simp_all add: coords_def)

lemma trail_fold:
  assumes "trailLength a = 100" and "trailGeometry a = Some b"
    and "array b = take 300 (concat (map coords (ps @ replicate 100 sentinel)))"
    and "\<forall>p \<in> set ps. fround3 p = p"
  shows "trail (fold perform cs (Enabled a)) =
    take 300 (concat (map coords (projections cs (Enabled a) @ ps @ replicate 100 sentinel)))"
  using assms
proof (induction cs arbitrary: a b ps)
  case Nil
  then show ?case by simp
next
  case (Cons c cs)
  show ?case
  proof (cases "\<exists>h. c = Update h")
    case False
    then have nu: "\<forall>h. c \<noteq> Update h" by blast
    obtain a' where a': "perform c (Enabled a) = Enabled a'" "trailLength a' = trailLength a"
        "trailGeometry a' = trailGeometry a"
      using perform_keeps_trail [OF nu] by blast
    have "trail (fold perform cs (Enabled a')) =
        take 300 (concat (map coords (projections cs (Enabled a') @ ps @ replicate 100 sentinel)))"
      using Cons.IH [of a' b ps] Cons.prems a' by simp
    then show ?thesis by (simp add: projections_other [OF nu] a')
  next
    case True
    then obtain h where c: "c = Update h" by blast
    define w where "w = fround3 (mouseToWorld h (camera a) (mouseX a) (mouseY a) (js 5))"
    let ?all = "concat (map coords (ps @ replicate 100 sentinel))"
    have la: "300 \<le> length ?all" using length_flat [of "ps @ replicate 100 sentinel"] by simp
    have len: "length (array b) = trailLength a * 3" using Cons.prems(1,3) la by simp
    have fixed: "\<forall>v \<in> set (array b). fround v = v"
    proof
      fix v assume "v \<in> set (array b)"
      then have "v \<in> set ?all" using Cons.prems(3) by (auto dest: in_set_takeD)
      then obtain p where "p \<in> set ps \<union> {sentinel}" and "v \<in> set (coords p)" by auto
      then show "fround v = v"
        using Cons.prems(4) sentinel_fixed by (auto intro: coords_fround3_fixed)
    qed
    have t: "trail (update h (Enabled a)) = coords w @ take (length (array b) - 3) (array b)"
      unfolding w_def using Cons.prems(2) len _ fixed by (rule trail_update_list) (simp add: Cons.prems(1))
    have "take (length (array b) - 3) (array b) = take 297 ?all"
      using Cons.prems(1,3) len by (simp add: min_def)
    then have t': "trail (update h (Enabled a)) = take 300 (concat (map coords ((w # ps) @ replicate 100 sentinel)))"
      unfolding t by (simp add: coords_def)
    obtain b' where b': "trailGeometry (frame h a) = Some b'"
      using trailGeometry_frame [OF Cons.prems(2)] by blast
    have ab': "array b' = trail (update h (Enabled a))" by (simp add: b')
    have "trail (fold perform cs (Enabled (frame h a))) =
        take 300 (concat (map coords (projections cs (Enabled (frame h a)) @ (w # ps) @ replicate 100 sentinel)))"
    proof (rule Cons.IH [of "frame h a" b' "w # ps"])
      show "trailLength (frame h a) = 100" by (simp add: trailLength_frame Cons.prems(1))
      show "trailGeometry (frame h a) = Some b'" by (rule b')
      show "array b' = take 300 (concat (map coords ((w # ps) @ replicate 100 sentinel)))"
        unfolding ab' by (rule t')
      show "\<forall>p \<in> set (w # ps). fround3 p = p"
        using Cons.prems(4) by (simp add: w_def fround3_idem)
    qed
    then show ?thesis by (simp add: c w_def)
  qed
qed

lemma take_flat: "take (n * 3) (concat (map coords xs)) = concat (map coords (take n xs))"
proof (induction xs arbitrary: n)
  case Nil
  then show ?case by simp
next
  case (Cons x xs)
  show ?case
  proof (cases n)
    case 0
    then show ?thesis by simp
  next
    case (Suc m)
    have "take (Suc m * 3) (coords x @ concat (map coords xs))
        = coords x @ take (m * 3) (concat (map coords xs))"
      by (simp add: coords_def numeral_3_eq_3)
    then show ?thesis using Cons.IH [of m] Suc by simp
  qed
qed

lemma slot_flat: "i < length vs \<Longrightarrow> slot (concat (map coords vs)) i = vs ! i"
proof (induction vs arbitrary: i)
  case Nil
  then show ?case by simp
next
  case (Cons v vs)
  show ?case
  proof (cases i)
    case 0
    then show ?thesis by (simp add: slot_def coords_def Vector3_def)
  next
    case (Suc j)
    have "slot (coords v @ concat (map coords vs)) (Suc j) = slot (concat (map coords vs)) j"
      by (simp add: slot_def coords_def nth_append numeral_3_eq_3)
    then show ?thesis using Cons.IH [of j] Cons.prems Suc by simp
  qed
qed

lemma trail_construct:
  "trail (fold perform cs (construct h (Some el))) =
    concat (map coords (take 100 (projections cs (construct h (Some el)) @ replicate 100 sentinel)))"
proof -
  obtain a where a: "construct h (Some el) = Enabled a" and tl: "trailLength a = 100"
    and tg: "trailGeometry a = Some (initCursorTrail 100)"
    by (simp add: construct_def)
  have "array (initCursorTrail 100) = take 300 (concat (map coords ([] @ replicate 100 sentinel)))"
    by (simp add: array_initCursorTrail map_replicate_const length_concat sum_list_replicate coords_def)
  then have "trail (fold perform cs (Enabled a)) =
      take 300 (concat (map coords (projections cs (Enabled a) @ [] @ replicate 100 sentinel)))"
    using tl tg by (intro trail_fold) simp_all
  also have "\<dots> = take (100 * 3) (concat (map coords (projections cs (Enabled a) @ replicate 100 sentinel)))"
    by simp
  also have "\<dots> = concat (map coords (take 100 (projections cs (Enabled a) @ replicate 100 sentinel)))"
    by (rule take_flat)
  finally show ?thesis unfolding a .
qed

text \<open>
  Claim C10. Start from the scene the constructor builds and make any sequence of
  public calls. The trail array always has \<open>100\<close> slots of three numbers. As long as
  the sequence holds \<open>n < 100\<close> calls of \<^verbatim>\<open>update()\<close>, slots \<open>0\<close> to \<open>n - 1\<close> hold
  the \<open>n\<close> pointer positions those calls projected, the newest first, as the array
  stores them, and slots \<open>n\<close> to \<open>99\<close> still hold the sentinel \<open>(0, 0, -100)\<close>. This
  holds with or without calls of \<^verbatim>\<open>resize\<close>, which never touches the trail.
\<close>

theorem trail_fill_invariant:
  "length (trail (fold perform cs (construct h (Some el)))) = 100 * 3
   \<and> (length (projections cs (construct h (Some el))) < 100 \<longrightarrow>
        trail (fold perform cs (construct h (Some el)))
          = concat (map coords (projections cs (construct h (Some el))))
            @ concat (replicate (100 - length (projections cs (construct h (Some el))))
                (coords sentinel))
        \<and> (\<forall>i < length (projections cs (construct h (Some el))).
              slot (trail (fold perform cs (construct h (Some el)))) i
                = projections cs (construct h (Some el)) ! i)
        \<and> (\<forall>i. length (projections cs (construct h (Some el))) \<le> i \<and> i < 100 \<longrightarrow>
              slot (trail (fold perform cs (construct h (Some el)))) i = sentinel))"
proof -
  define P where "P = projections cs (construct h (Some el))"
  define t where "t = trail (fold perform cs (construct h (Some el)))"
  have t: "t = concat (map coords (take 100 (P @ replicate 100 sentinel)))"
    unfolding t_def P_def by (rule trail_construct)
  have len: "length t = 100 * 3"
    unfolding t length_flat by simp
  have fill: "t = concat (map coords P) @ concat (replicate (100 - length P) (coords sentinel))
      \<and> (\<forall>i < length P. slot t i = P ! i)
      \<and> (\<forall>i. length P \<le> i \<and> i < 100 \<longrightarrow> slot t i = sentinel)" if n: "length P < 100"
  proof -
    have tk: "take 100 (P @ replicate 100 sentinel) = P @ replicate (100 - length P) sentinel"
      using n by simp
    have s: "slot t i = (P @ replicate (100 - length P) sentinel) ! i" if "i < 100" for i
      unfolding t tk using that n by (intro slot_flat) simp
    have 1: "t = concat (map coords P) @ concat (replicate (100 - length P) (coords sentinel))"
      unfolding t tk by (simp add: map_replicate_const)
    have 2: "\<forall>i < length P. slot t i = P ! i" using s n by (simp add: nth_append)
    have 3: "\<forall>i. length P \<le> i \<and> i < 100 \<longrightarrow> slot t i = sentinel"
      using s n by (auto simp: nth_append)
    show ?thesis using 1 2 3 by blast
  qed
  show ?thesis unfolding t_def [symmetric] P_def [symmetric] using len fill by blast
qed

text \<open>Claim C10 at a sequence with one update: its hypothesis holds there.\<close>

theorem trail_fill_invariant_witness:
  "length (projections [SetMouse (Fin 0) (Fin 0), Update sample_host]
      (construct sample_host (Some ''bg''))) < 100
   \<and> trail (fold perform [SetMouse (Fin 0) (Fin 0), Update sample_host]
        (construct sample_host (Some ''bg'')))
     = concat (map coords (projections [SetMouse (Fin 0) (Fin 0), Update sample_host]
        (construct sample_host (Some ''bg''))))
       @ concat (replicate (100 - length (projections [SetMouse (Fin 0) (Fin 0), Update sample_host]
        (construct sample_host (Some ''bg'')))) (coords sentinel))"
proof -
  have "length (projections [SetMouse (Fin 0) (Fin 0), Update sample_host]
      (construct sample_host (Some ''bg''))) < 100"
    by (simp add: construct_def)
  then show ?thesis
    using trail_fill_invariant [of "[SetMouse (Fin 0) (Fin 0), Update sample_host]" sample_host "''bg''"]
    by blast
qed

section \<open>The sentinel and the view volume\<close>

lemma rnd64_eval:
  assumes "2 powi k \<le> \<bar>x\<bar>" and "\<bar>x\<bar> < 2 powi (k + 1)"
    and "e = max (k - 52) (- 1074)" and "rne (x / 2 powi e) = n"
    and "\<bar>of_int n * 2 powi e\<bar> < (2::real) powi 1024"
  shows "rnd64 x = Fin (of_int n * 2 powi e)"
proof -
  have "nearest 53 (- 1074) x = of_int n * 2 powi e"
    using assms(1,2) _ assms(4) by (rule nearest_eval) (simp add: assms(3))
  then show ?thesis using assms(5) by (simp add: rnd64_def round_to_def)
qed

lemma js_30: "js 30 = Fin 30" using js_int [of 30] by simp

lemma js_45: "js 45 = Fin 45" using js_int [of 45] by simp

lemma js_1000: "js 1000 = Fin 1000" using js_int [of 1000] by simp

lemma js_01: "js 0.1 = Fin (7205759403792794 / 2 ^ 56)"
proof -
  have "rnd64 0.1 = Fin (of_int 7205759403792794 * 2 powi (- 56))"
    by (rule rnd64_eval [where k = "- 4"]) (simp_all add: rne_def Let_def)
  then show ?thesis by (simp add: js_def power_int_minus divide_simps)
qed

lemma aspect_sample: "rnd64 (16 / 9) = Fin (8006399337547548 / 2 ^ 52)"
proof -
  have "rnd64 (16 / 9) = Fin (of_int 8006399337547548 * 2 powi (- 52))"
    by (rule rnd64_eval [where k = 0]) (simp_all add: rne_def Let_def)
  then show ?thesis by (simp add: power_int_minus divide_simps)
qed

lemma tan_pi_8_nonneg: "0 \<le> tan (pi / 8)"
proof -
  have "0 < tan (pi / 8)" by (rule tan_gt_zero) simp_all
  then show ?thesis by simp
qed

text \<open>
  Claim C8. In a window of 1920 by 1080 pixels the constructor fills each of the
  \<open>100\<close> slots of the trail with \<open>(0, 0, -100)\<close>, as the claim says. But this point
  does not lie outside the view volume of the camera at \<open>(0, 0, 30)\<close> with a field of
  view of 45 degrees, near plane \<open>0.1\<close> and far plane \<open>1000\<close>: the camera looks down
  the negative \<open>z\<close> axis, and the sentinel lies on that axis, \<open>130\<close> units in front of
  the camera, between the near and the far plane.
\<close>

theorem sentinel_inside_frustum:
  "trail (construct sample_host (Some ''bg'')) = concat (replicate 100 (coords sentinel))
   \<and> coords sentinel = [Fin 0, Fin 0, Fin (- 100)]
   \<and> in_frustum (initCamera sample_host) sentinel"
proof -
  have 1: "trail (construct sample_host (Some ''bg'')) = concat (replicate 100 (coords sentinel))"
    using trail_construct [of "[]" sample_host "''bg''"] by (simp add: map_replicate_const)
  have 2: "coords sentinel = [Fin 0, Fin 0, Fin (- 100)]"
    by (simp add: coords_def sentinel_def Vector3_def)
  have "(45::real) * pi / 360 = pi / 8" by simp
  then have 3: "in_frustum (initCamera sample_host) sentinel"
    using tan_pi_8_nonneg
    by (simp add: in_frustum_def initCamera_def sample_host_def sentinel_def Vector3_def
        js_0 js_30 js_45 js_1000 js_01 aspect_sample)
  show ?thesis using 1 2 3 by blast
qed

section \<open>The degenerate ray\<close>

lemma zero_times_quotient_by_zero: "Fin 0 * (w / Fin 0) = NaN"
  by (cases w) simp_all

lemma plus_NaN: "c + NaN = NaN"
  by (cases c) simp_all

lemma quotient_by_zero_not_finite: "\<not> finite_num (w / Fin 0)"
  by (cases w) simp_all

lemma times_not_finite: "\<not> finite_num t \<Longrightarrow> \<not> finite_num (d * t)"
  by (cases d; cases t) simp_all

lemma plus_not_finite: "\<not> finite_num t \<Longrightarrow> \<not> finite_num (c + t)"
  by (cases c; cases t) simp_all

lemma fround_not_finite: "\<not> finite_num t \<Longrightarrow> \<not> finite_num (fround t)"
  by (cases t) simp_all

lemma zero_times_not_finite: "\<not> finite_num t \<Longrightarrow> Fin 0 * t = NaN"
  by (cases t) simp_all

lemma slot0_update:
  assumes "trailGeometry a = Some b" and "length (array b) = trailLength a * 3"
    and "0 < trailLength a"
  shows "slot (trail (update h (Enabled a))) 0
    = fround3 (mouseToWorld h (camera a) (mouseX a) (mouseY a) (js 5))"
proof -
  have "0 < length (array b)" "1 < length (array b)" "2 < length (array b)"
    using assms(2,3) by simp_all
  then show ?thesis
    unfolding slot_def fround3_def
    by (simp add: nth_trail_update [OF assms] del: update.simps trail.simps)
qed

text \<open>
  Claim C7, amended. \<^verbatim>\<open>_mouseToWorld\<close> has no guard for the degenerate ray: whatever
  the \<open>z\<close> coordinate of the computed direction is, it divides by it and returns
  \<open>camera.position + direction * ((z - camera.position.z) / direction.z)\<close>. When that
  coordinate is \<open>0\<close> the quotient is an infinity or \<^verbatim>\<open>NaN\<close>, and whichever of these
  it is (the sign of an infinite quotient follows the sign of the zero), the \<open>x\<close> and
  \<open>y\<close> coordinates of the point returned are infinite or \<^verbatim>\<open>NaN\<close> and its \<open>z\<close>
  coordinate is \<^verbatim>\<open>NaN\<close>, whatever the camera, the pointer and the target depth are.
  The next \<^verbatim>\<open>update()\<close> stores these values in slot 0 of the trail; no earlier
  sample is returned in their place.
\<close>

theorem mouseToWorld_unguarded:
  assumes "vz (rayDirection h cam nx ny) = Fin 0"
  shows "mouseToWorld h cam nx ny z
      = v_add (position cam)
          (multiplyScalar (rayDirection h cam nx ny)
             ((z - vz (position cam)) / vz (rayDirection h cam nx ny)))
    \<and> \<not> finite_num ((z - vz (position cam)) / vz (rayDirection h cam nx ny))
    \<and> (\<not> finite_num t \<longrightarrow>
          \<not> finite_num (vx (v_add (position cam) (multiplyScalar (rayDirection h cam nx ny) t)))
        \<and> \<not> finite_num (vy (v_add (position cam) (multiplyScalar (rayDirection h cam nx ny) t)))
        \<and> vz (v_add (position cam) (multiplyScalar (rayDirection h cam nx ny) t)) = NaN)
    \<and> \<not> finite_num (vx (mouseToWorld h cam nx ny z))
    \<and> \<not> finite_num (vy (mouseToWorld h cam nx ny z))
    \<and> vz (mouseToWorld h cam nx ny z) = NaN
    \<and> (camera a = cam \<and> mouseX a = nx \<and> mouseY a = ny \<and> trailGeometry a = Some b
          \<and> length (array b) = trailLength a * 3 \<and> 0 < trailLength a \<longrightarrow>
        \<not> finite_num (vx (slot (trail (update h (Enabled a))) 0))
        \<and> \<not> finite_num (vy (slot (trail (update h (Enabled a))) 0))
        \<and> vz (slot (trail (update h (Enabled a))) 0) = NaN)"
proof -
  define dir where "dir = rayDirection h cam nx ny"
  define q where "q z = (z - vz (position cam)) / Fin 0" for z
  have dz: "vz dir = Fin 0" unfolding dir_def by (rule assms)
  have 1: "mouseToWorld h cam nx ny z = v_add (position cam) (multiplyScalar dir (q z))" for z
    by (simp add: dir_def q_def mouseToWorld_def Let_def assms)
  have 2: "\<not> finite_num (q z)" for z unfolding q_def by (rule quotient_by_zero_not_finite)
  have 3: "\<not> finite_num (vx (v_add (position cam) (multiplyScalar dir t)))
      \<and> \<not> finite_num (vy (v_add (position cam) (multiplyScalar dir t)))
      \<and> vz (v_add (position cam) (multiplyScalar dir t)) = NaN" if "\<not> finite_num t" for t
    using that
    by (simp add: v_add_def multiplyScalar_def plus_not_finite times_not_finite dz
        zero_times_not_finite plus_NaN)
  have 4: "\<not> finite_num (vx (mouseToWorld h cam nx ny z))
      \<and> \<not> finite_num (vy (mouseToWorld h cam nx ny z))
      \<and> vz (mouseToWorld h cam nx ny z) = NaN" for z
    unfolding 1 using 2 by (rule 3)
  have 5: "\<not> finite_num (vx (slot (trail (update h (Enabled a))) 0))
        \<and> \<not> finite_num (vy (slot (trail (update h (Enabled a))) 0))
        \<and> vz (slot (trail (update h (Enabled a))) 0) = NaN"
    if a: "camera a = cam \<and> mouseX a = nx \<and> mouseY a = ny \<and> trailGeometry a = Some b
          \<and> length (array b) = trailLength a * 3 \<and> 0 < trailLength a"
  proof -
    have "slot (trail (update h (Enabled a))) 0
        = fround3 (mouseToWorld h (camera a) (mouseX a) (mouseY a) (js 5))"
      using a by (intro slot0_update [where b = b]) simp_all
    then have "slot (trail (update h (Enabled a))) 0 = fround3 (mouseToWorld h cam nx ny (js 5))"
      using a by simp
    then show ?thesis
      using 4 [of "js 5"] by (simp add: fround3_def Vector3_def fround_not_finite)
  qed
  show ?thesis
    using 1 [of z] 2 [of z] 3 [of t] 4 [of z] 5 unfolding dir_def q_def assms by blast
qed

lemma rayDirection_overflow:
  assumes "rnd64 X = Fin X" and "rnd64 (X * X) = PInf"
  shows "rayDirection sample_host (initCamera sample_host) (Fin X) (Fin 0)
    = Vector3 (Fin 0) (Fin 0) (Fin 0)"
  by (simp add: rayDirection_def Let_def sample_host_def initCamera_def
      normalize_def divideScalar_def multiplyScalar_def v_length_def v_sub_def js_or_def
      Vector3_def js_def minus_jsnum_def rnd64_0 rnd64_1 rnd64_30 rnd64_m1 assms)

lemma rnd64_far:
  "rnd64 (2 powi 600) = Fin (2 powi 600)" "rnd64 (2 powi 600 * 2 powi 600) = PInf"
proof -
  have r: "representable 53 (- 1074) (2 powi 600)" by (rule representable_pow) simp_all
  have "\<bar>(2::real) powi 600\<bar> < 2 powi 1024" by (simp add: power_int_def)
  then show "rnd64 (2 powi 600) = Fin (2 powi 600)"
    unfolding rnd64_def using r by (intro round_to_exact)
  have e: "(2::real) powi 600 * 2 powi 600 = 2 powi 1200" by (simp add: power_int_def flip: power_add)
  have "representable 53 (- 1074) (2 powi 1200)" by (rule representable_pow) simp_all
  then have n: "nearest 53 (- 1074) (2 powi 1200) = 2 powi 1200" by (rule nearest_exact)
  have "(2::real) powi 1024 \<le> 2 powi 1200" by (rule power_int_increasing) simp_all
  then show "rnd64 (2 powi 600 * 2 powi 600) = PInf"
    unfolding e rnd64_def round_to_def Let_def n by simp
qed

lemma length_initCursorTrail: "length (array (initCursorTrail n)) = n * 3"
  by (simp add: array_initCursorTrail length_concat sum_list_replicate coords_def)

text \<open>
  The hypotheses of the amended claim C7 hold of the camera the constructor builds and
  the pointer \<open>(2 powi 600, 0)\<close>: the length of the ray overflows and the normalized
  direction is the zero vector.
\<close>

theorem mouseToWorld_unguarded_witness:
  "vz (rayDirection sample_host (initCamera sample_host) (Fin (2 powi 600)) (Fin 0)) = Fin 0
   \<and> camera (sample_active\<lparr>mouseX := Fin (2 powi 600)\<rparr>) = initCamera sample_host
   \<and> mouseX (sample_active\<lparr>mouseX := Fin (2 powi 600)\<rparr>) = Fin (2 powi 600)
   \<and> mouseY (sample_active\<lparr>mouseX := Fin (2 powi 600)\<rparr>) = Fin 0
   \<and> trailGeometry (sample_active\<lparr>mouseX := Fin (2 powi 600)\<rparr>)
       = Some \<lparr>array = [Fin 0, Fin 0, Fin 0, Fin 0, Fin 0, Fin 0], needsUpdate = False\<rparr>
   \<and> length (array \<lparr>array = [Fin 0, Fin 0, Fin 0, Fin 0, Fin 0, Fin 0], needsUpdate = False\<rparr>)
       = trailLength (sample_active\<lparr>mouseX := Fin (2 powi 600)\<rparr>) * 3
   \<and> 0 < trailLength (sample_active\<lparr>mouseX := Fin (2 powi 600)\<rparr>)
   \<and> \<not> finite_num PInf
   \<and> vz (v_add (position (initCamera sample_host))
         (multiplyScalar (rayDirection sample_host (initCamera sample_host) (Fin (2 powi 600)) (Fin 0))
            PInf)) = NaN
   \<and> \<not> finite_num (vx (mouseToWorld sample_host (initCamera sample_host) (Fin (2 powi 600)) (Fin 0) (js 5)))
   \<and> vz (mouseToWorld sample_host (initCamera sample_host) (Fin (2 powi 600)) (Fin 0) (js 5)) = NaN
   \<and> vz (slot (trail (update sample_host (Enabled (sample_active\<lparr>mouseX := Fin (2 powi 600)\<rparr>)))) 0) = NaN"
proof -
  define X :: real where "X = 2 powi 600"
  define a where "a = sample_active\<lparr>mouseX := Fin X\<rparr>"
  define b where "b = \<lparr>array = [Fin 0, Fin 0, Fin 0, Fin 0, Fin 0, Fin 0], needsUpdate = False\<rparr>"
  have "rayDirection sample_host (initCamera sample_host) (Fin X) (Fin 0)
      = Vector3 (Fin 0) (Fin 0) (Fin 0)"
    unfolding X_def by (rule rayDirection_overflow [OF rnd64_far])
  then have 0: "vz (rayDirection sample_host (initCamera sample_host) (Fin X) (Fin 0)) = Fin 0"
    by (simp add: Vector3_def)
  have 1: "camera a = initCamera sample_host" "mouseX a = Fin X" "mouseY a = Fin 0"
      "trailGeometry a = Some b" "length (array b) = trailLength a * 3" "0 < trailLength a"
    by (simp_all add: a_def b_def sample_active_def)
  have 2: "\<not> finite_num PInf" by simp
  have "vz (v_add (position (initCamera sample_host))
         (multiplyScalar (rayDirection sample_host (initCamera sample_host) (Fin X) (Fin 0)) PInf)) = NaN
      \<and> \<not> finite_num (vx (mouseToWorld sample_host (initCamera sample_host) (Fin X) (Fin 0) (js 5)))
      \<and> vz (mouseToWorld sample_host (initCamera sample_host) (Fin X) (Fin 0) (js 5)) = NaN
      \<and> vz (slot (trail (update sample_host (Enabled a))) 0) = NaN"
    using mouseToWorld_unguarded [OF 0, of "js 5" PInf a b] 1 2 by blast
  then show ?thesis
    unfolding X_def [symmetric] a_def [symmetric] b_def [symmetric] using 0 1 2 by blast
qed

text \<open>
  Claim C7, as stated, fails: on the scene the constructor builds, with the pointer set
  to \<open>(2 powi 600, 0)\<close>, the direction computed by \<^verbatim>\<open>_mouseToWorld\<close> has the \<open>z\<close>
  coordinate \<open>0\<close>, \<^verbatim>\<open>_mouseToWorld\<close> returns \<open>(NaN, NaN, NaN)\<close>, and
  \<^verbatim>\<open>update()\<close> stores these values in slot 0 of the trail.
\<close>

theorem mouseToWorld_propagates_non_finite:
  "vz (rayDirection sample_host (initCamera sample_host) (Fin (2 powi 600)) (Fin 0)) = Fin 0
   \<and> mouseToWorld sample_host (initCamera sample_host) (Fin (2 powi 600)) (Fin 0) (js 5)
       = Vector3 NaN NaN NaN
   \<and> slot (trail (update sample_host
        (setMouse (Fin (2 powi 600)) (Fin 0) (construct sample_host (Some ''bg''))))) 0
       = Vector3 NaN NaN NaN"
proof -
  define X :: real where "X = 2 powi 600"
  have d: "rayDirection sample_host (initCamera sample_host) (Fin X) (Fin 0)
      = Vector3 (Fin 0) (Fin 0) (Fin 0)"
    unfolding X_def by (rule rayDirection_overflow [OF rnd64_far])
  have 0: "vz (rayDirection sample_host (initCamera sample_host) (Fin X) (Fin 0)) = Fin 0"
    by (simp add: d Vector3_def)
  have 1: "mouseToWorld sample_host (initCamera sample_host) (Fin X) (Fin 0) (js 5)
      = Vector3 NaN NaN NaN"
    by (simp add: mouseToWorld_def Let_def d)
       (simp add: Vector3_def v_add_def multiplyScalar_def initCamera_def js_def minus_jsnum_def
          rnd64_0 rnd64_5 rnd64_m25 rnd64_30)
  obtain a where a: "setMouse (Fin X) (Fin 0) (construct sample_host (Some ''bg'')) = Enabled a"
      and c: "camera a = initCamera sample_host" "mouseX a = Fin X" "mouseY a = Fin 0"
      and t: "trailGeometry a = Some (initCursorTrail 100)" "trailLength a = 100"
    by (simp add: construct_def)
  have "slot (trail (update sample_host (Enabled a))) 0
      = fround3 (mouseToWorld sample_host (camera a) (mouseX a) (mouseY a) (js 5))"
    using t by (intro slot0_update [where b = "initCursorTrail 100"])
      (simp_all add: length_initCursorTrail)
  then have 2: "slot (trail (update sample_host (Enabled a))) 0 = Vector3 NaN NaN NaN"
    unfolding c 1 by (simp add: fround3_def Vector3_def)
  show ?thesis unfolding X_def [symmetric] a using 0 1 2 by blast
qed

section \<open>The decay of the velocity uniform\<close>

lemma decay_step:
  assumes "is_double r"
  shows "\<exists>r'. Fin r * js 0.95 = Fin r' \<and> is_double r' \<and> \<bar>r'\<bar> \<le> \<bar>r\<bar> \<and> (r \<noteq> 0 \<longrightarrow> r' \<noteq> 0)"
proof -
  define c :: real where "c = 8556839292003942 / 2 ^ 53"
  define r' where "r' = nearest 53 (- 1074) (r * c)"
  have c: "1 / 2 < c" "c \<le> 1" by (simp_all add: c_def)
  have jc: "js 0.95 = Fin c" by (simp only: js_095 c_def)
  have le: "\<bar>r * c\<bar> \<le> \<bar>r\<bar>" using c by (simp add: abs_mult mult_left_le)
  have b: "rnd64 (r * c) = Fin r'" "\<bar>r'\<bar> \<le> \<bar>r\<bar>"
    unfolding r'_def using le is_double_abs [OF assms] by (rule rnd64_bounded)+
  have "representable 53 (- 1074) r'" unfolding r'_def by (rule nearest_representable) simp
  moreover have "\<bar>r'\<bar> < 2 powi 1024" using b(2) assms by (simp add: is_double_def)
  ultimately have d: "is_double r'" by (simp add: is_double_def)
  have nz: "r' \<noteq> 0" if "r \<noteq> 0"
  proof -
    have "representable 53 (- 1074) r" using assms by (simp add: is_double_def)
    then have "2 powi (- 1074) \<le> \<bar>r\<bar>" using that by (rule representable_lower)
    then have "2 powi (- 1074) * (1 / 2) < \<bar>r\<bar> * c"
      using c(1) by (intro mult_le_less_imp_less) simp_all
    moreover have "(2::real) powi (- 1074 - 1) = 2 powi (- 1074) * (1 / 2)"
      by (simp add: power_int_diff)
    moreover have "\<bar>r * c\<bar> = \<bar>r\<bar> * c" using c by (simp add: abs_mult)
    ultimately have "2 powi (- 1074 - 1) < \<bar>r * c\<bar>" by simp
    then show ?thesis unfolding r'_def by (intro nearest_nonzero) simp_all
  qed
  have "Fin r * js 0.95 = Fin r'" unfolding jc using b(1) by simp
  then show ?thesis using d b(2) nz by blast
qed

lemma nearest_half_ulp:
  "\<bar>nearest p emin x - x\<bar> \<le> 2 powi (expo p emin x - 1)"
proof (cases "x = 0")
  case True
  then show ?thesis by (simp add: nearest_def)
next
  case False
  define e where "e = expo p emin x"
  define n where "n = rne (x / 2 powi e)"
  have nx: "nearest p emin x = of_int n * 2 powi e" using False by (simp add: nearest_def e_def n_def)
  have "\<bar>of_int n - x / 2 powi e\<bar> \<le> 1 / 2" unfolding n_def by (rule rne_err)
  then have a: "\<bar>of_int n - x / 2 powi e\<bar> * 2 powi e \<le> 1 / 2 * 2 powi e"
    by (intro mult_right_mono) simp_all
  have b: "\<bar>of_int n - x / 2 powi e\<bar> * 2 powi e = \<bar>of_int n * 2 powi e - x\<bar>"
  proof -
    have "(of_int n - x / 2 powi e) * 2 powi e = of_int n * 2 powi e - x"
      by (simp add: algebra_simps)
    then have "\<bar>of_int n * 2 powi e - x\<bar> = \<bar>of_int n - x / 2 powi e\<bar> * \<bar>(2::real) powi e\<bar>"
      by (metis abs_mult)
    then show ?thesis by simp
  qed
  have c: "1 / 2 * (2::real) powi e = 2 powi (e - 1)" by (simp add: power_int_diff)
  have "\<bar>of_int n * 2 powi e - x\<bar> \<le> 2 powi (e - 1)" using a unfolding b c .
  then show ?thesis unfolding nx e_def .
qed

lemma double_grid:
  assumes "is_double r"
  shows "\<exists>n::int. r = of_int n * 2 powi (- 1074)"
proof -
  from assms obtain m e where r: "r = of_int m * 2 powi e" and e: "- 1074 \<le> e"
    unfolding is_double_def representable_def by blast
  have "(2::real) powi ((e + 1074) + - 1074) = 2 powi (e + 1074) * 2 powi (- 1074)"
    by (rule power_int_add) simp
  moreover have "(e + 1074) + - 1074 = e" by simp
  ultimately have "(2::real) powi e = 2 powi (e + 1074) * 2 powi (- 1074)" by (simp only:)
  also have "(2::real) powi (e + 1074) = of_int (2 ^ nat (e + 1074))"
    using e by (intro powi2_nat) simp
  finally have "r = of_int (m * 2 ^ nat (e + 1074)) * 2 powi (- 1074)"
    by (simp add: r)
  then show ?thesis by blast
qed

lemma decay_stuck:
  assumes "is_double r" and "\<bar>r\<bar> < 10 * 2 powi (- 1074)"
  shows "nearest 53 (- 1074) (r * (8556839292003942 / 2 ^ 53)) = r"
proof (cases "r = 0")
  case True
  then show ?thesis by (simp add: nearest_zero)
next
  case False
  define c :: real where "c = 8556839292003942 / 2 ^ 53"
  define u :: real where "u = 2 powi (- 1074)"
  define x where "x = r * c"
  have c: "0 < c" "c \<le> 1" "9 * (1 - c) < 1 / 2" by (simp_all add: c_def)
  have u: "0 < u" by (simp add: u_def)
  obtain n :: int where n: "r = of_int n * u" using double_grid [OF assms(1)] unfolding u_def by blast
  have "\<bar>real_of_int n\<bar> * u < 10 * u" using assms(2) u by (simp add: n abs_mult u_def)
  then have "\<bar>real_of_int n\<bar> < 10" using u by simp
  then have "\<bar>n\<bar> < 10" by (simp flip: of_int_abs)
  then have "\<bar>n\<bar> \<le> 9" by simp
  then have n9: "\<bar>real_of_int n\<bar> \<le> 9" by (simp flip: of_int_abs)
  have x0: "x \<noteq> 0" using False c by (simp add: x_def)
  have "\<bar>x\<bar> \<le> \<bar>r\<bar>" using c by (simp add: x_def abs_mult mult_left_le)
  also have "\<dots> < 10 * u" using assms(2) by (simp add: u_def)
  also have "\<dots> \<le> 2 powi 4 * u" by (simp add: u)
  also have "\<dots> = 2 powi (4 + - 1074)" unfolding u_def by (rule power_int_add [symmetric]) simp
  finally have "\<bar>x\<bar> < 2 powi (4 + - 1074)" .
  moreover have "(2::real) powi (4 + - 1074) \<le> 2 powi (- 1074 + int 53)"
    by (rule power_int_increasing) simp_all
  ultimately have "\<bar>x\<bar> < 2 powi (- 1074 + int 53)" by (rule less_le_trans)
  then have e: "expo 53 (- 1074) x = - 1074" using x0 by (intro expo_subnormal)
  have "x / u = of_int n * c" using u by (simp add: x_def n)
  moreover have "\<bar>of_int n * c - of_int n\<bar> < 1 / 2"
  proof -
    have "of_int n * c - of_int n = - (of_int n * (1 - c))" by (simp add: algebra_simps)
    then have "\<bar>of_int n * c - of_int n\<bar> = \<bar>real_of_int n\<bar> * (1 - c)"
      using c by (simp add: abs_mult)
    also have "\<dots> \<le> 9 * (1 - c)" using n9 c by (intro mult_right_mono) simp_all
    finally show ?thesis using c(3) by linarith
  qed
  ultimately have "rne (x / u) = n" by (simp only: rne_near)
  then have "nearest 53 (- 1074) x = of_int n * u"
    using x0 by (simp add: nearest_def e u_def)
  then show ?thesis by (simp add: x_def c_def n)
qed

lemma decay_strict:
  assumes "is_double r" and "10 * 2 powi (- 1074) \<le> \<bar>r\<bar>"
  shows "\<bar>nearest 53 (- 1074) (r * (8556839292003942 / 2 ^ 53))\<bar> < \<bar>r\<bar>"
proof -
  define c :: real where "c = 8556839292003942 / 2 ^ 53"
  define u :: real where "u = 2 powi (- 1074)"
  define a where "a = \<bar>r\<bar>"
  define x where "x = a * c"
  define e where "e = expo 53 (- 1074) x"
  have c: "0 < c" "c \<le> 1" "1 / 2 < 10 * (1 - c)" "2 powi (- 53) < 1 - c"
    by (simp_all add: c_def power_int_minus)
  have u: "0 < u" by (simp add: u_def)
  have a: "10 * u \<le> a" using assms(2) by (simp add: a_def u_def)
  then have a0: "0 < a" using u by linarith
  have x0: "x \<noteq> 0" "0 < x" "x \<le> a" using a0 c by (simp_all add: x_def mult_left_le)
  have gap: "2 powi (e - 1) < a * (1 - c)"
  proof (cases "e = - 1074")
    case True
    have "(2::real) powi (- 1074 - 1) = 1 / 2 * u" by (simp add: u_def power_int_diff)
    also have "\<dots> < 10 * (1 - c) * u" using c(3) u by (intro mult_strict_right_mono)
    also have "\<dots> = 10 * u * (1 - c)" by simp
    also have "\<dots> \<le> a * (1 - c)" using a c by (intro mult_right_mono) simp_all
    finally show ?thesis by (simp add: True)
  next
    case False
    then have "e = \<lfloor>log 2 \<bar>x\<bar>\<rfloor> - 52" unfolding e_def expo_def by simp
    then have k: "\<lfloor>log 2 \<bar>x\<bar>\<rfloor> = e + 52" by simp
    have "2 powi (e + 52) \<le> \<bar>x\<bar>" using log2_bounds(1) [OF x0(1)] by (simp only: k)
    then have lo: "2 powi (e + 52) \<le> a" using x0 by simp
    have "(2::real) powi ((e + 52) + - 53) = 2 powi (e + 52) * 2 powi (- 53)"
      by (rule power_int_add) simp
    moreover have "(e + 52) + - 53 = e - 1" by simp
    ultimately have "(2::real) powi (e - 1) = 2 powi (e + 52) * 2 powi (- 53)" by (simp only:)
    also have "\<dots> \<le> a * 2 powi (- 53)" using lo by (intro mult_right_mono) simp_all
    also have "\<dots> < a * (1 - c)" using c(4) a0 by (intro mult_strict_left_mono)
    finally show ?thesis .
  qed
  have "\<bar>nearest 53 (- 1074) x - x\<bar> \<le> 2 powi (e - 1)" unfolding e_def by (rule nearest_half_ulp)
  then have "nearest 53 (- 1074) x < x + a * (1 - c)" using gap by linarith
  also have "\<dots> = a" by (simp add: x_def algebra_simps)
  finally have lt: "nearest 53 (- 1074) x < a" .
  have "\<bar>r * c\<bar> = x" using c by (simp add: x_def a_def abs_mult)
  then have "\<bar>nearest 53 (- 1074) (r * c)\<bar> = nearest 53 (- 1074) x" by (simp add: nearest_abs)
  then show ?thesis using lt by (simp add: a_def c_def)
qed

lemma decay_error_step:
  "\<bar>nearest 53 (- 1074) (r * (8556839292003942 / 2 ^ 53)) - r * (19 / 20)\<bar>
     \<le> 2 powi (- 52) * (19 / 20) * \<bar>r\<bar> + 2 powi (- 1075)"
proof -
  define c :: real where "c = 8556839292003942 / 2 ^ 53"
  define \<eta> :: real where "\<eta> = 2 powi (- 1075)"
  define R where "R = \<bar>r\<bar>"
  define y where "y = nearest 53 (- 1074) (r * c)"
  have "\<bar>y - r * c\<bar> \<le> 2 powi (- int 53) * \<bar>r * c\<bar> + 2 powi (- 1074 - 1)"
    unfolding y_def by (rule nearest_error) simp
  moreover have "- int 53 = - 53" "- 1074 - 1 = (- 1075 :: int)" by simp_all
  ultimately have "\<bar>y - r * c\<bar> \<le> 2 powi (- 53) * \<bar>r * c\<bar> + \<eta>" by (simp only: \<eta>_def)
  moreover have "\<bar>r * c\<bar> = R * c" by (simp add: R_def c_def abs_mult)
  ultimately have 1: "\<bar>y - r * c\<bar> \<le> 2 powi (- 53) * (R * c) + \<eta>" by simp
  have "r * c - r * (19 / 20) = - (r * (19 / 20 - c))" by (simp add: algebra_simps)
  then have "\<bar>r * c - r * (19 / 20)\<bar> = R * (19 / 20 - c)"
    by (simp add: R_def abs_mult c_def)
  then have 2: "\<bar>y - r * (19 / 20)\<bar> \<le> 2 powi (- 53) * (R * c) + \<eta> + R * (19 / 20 - c)"
    using 1 by linarith
  have "2 powi (- 53) * c + (19 / 20 - c) \<le> 2 powi (- 52) * (19 / 20)"
    by (simp add: c_def power_int_minus)
  then have "R * (2 powi (- 53) * c + (19 / 20 - c)) \<le> R * (2 powi (- 52) * (19 / 20))"
    by (intro mult_left_mono) (simp_all add: R_def)
  then have "2 powi (- 53) * (R * c) + R * (19 / 20 - c) \<le> 2 powi (- 52) * (19 / 20) * R"
    by (simp add: algebra_simps)
  then show ?thesis using 2 unfolding y_def c_def R_def \<eta>_def by linarith
qed

lemma decay_step_full:
  assumes "is_double r"
  shows "\<exists>r'. Fin r * js 0.95 = Fin r' \<and> is_double r' \<and> \<bar>r'\<bar> \<le> \<bar>r\<bar> \<and> (r \<noteq> 0 \<longrightarrow> r' \<noteq> 0)
    \<and> (10 * 2 powi (- 1074) \<le> \<bar>r\<bar> \<longrightarrow> \<bar>r'\<bar> < \<bar>r\<bar>)
    \<and> (\<bar>r\<bar> < 10 * 2 powi (- 1074) \<longrightarrow> r' = r)
    \<and> \<bar>r' - r * (19 / 20)\<bar> \<le> 2 powi (- 52) * (19 / 20) * \<bar>r\<bar> + 2 powi (- 1075)"
proof -
  obtain r' where r': "Fin r * js 0.95 = Fin r'" "is_double r'" "\<bar>r'\<bar> \<le> \<bar>r\<bar>" "r \<noteq> 0 \<longrightarrow> r' \<noteq> 0"
    using decay_step [OF assms] by blast
  have "rnd64 (r * (8556839292003942 / 2 ^ 53)) = Fin r'"
    using r'(1) unfolding js_095 by (simp only: times_jsnum.simps)
  then have v: "r' = nearest 53 (- 1074) (r * (8556839292003942 / 2 ^ 53))" by (rule rnd64_FinD)
  have 1: "10 * 2 powi (- 1074) \<le> \<bar>r\<bar> \<longrightarrow> \<bar>r'\<bar> < \<bar>r\<bar>"
    unfolding v using decay_strict [OF assms] by blast
  have 2: "\<bar>r\<bar> < 10 * 2 powi (- 1074) \<longrightarrow> r' = r"
    unfolding v using decay_stuck [OF assms] by blast
  have 3: "\<bar>r' - r * (19 / 20)\<bar> \<le> 2 powi (- 52) * (19 / 20) * \<bar>r\<bar> + 2 powi (- 1075)"
    unfolding v by (rule decay_error_step)
  show ?thesis using r' 1 2 3 by blast
qed

lemma decay_Suc: "decay (Suc k) v = decay k v * js 0.95"
  by (simp add: decay_def)

lemma decay_Suc_right: "decay (Suc k) v = decay k (v * js 0.95)"
  unfolding decay_def by (induction k) simp_all

lemma decay_error_induct:
  fixes w q \<eta> :: real
  assumes w: "0 \<le> w" and q: "0 \<le> q" and K: "q * (1 + w) \<le> 24 / 25" and \<eta>: "0 \<le> \<eta>"
    and P: "0 \<le> P" and A: "0 \<le> A"
    and E: "E \<le> A * P + 25 * \<eta>"
    and R: "R \<le> P + E"
    and E': "E' \<le> w * q * R + \<eta> + q * E"
  shows "E' \<le> ((1 + w) * (A + 1) - 1) * (P * q) + 25 * \<eta>"
proof -
  define K where "K = q * (1 + w)"
  define T where "T = A * P"
  have K0: "0 \<le> K" using w q by (simp add: K_def)
  have wq: "0 \<le> w * q" using w q by simp
  have "w * q * R \<le> w * q * (P + E)" using R wq by (intro mult_left_mono)
  then have "E' \<le> w * q * P + K * E + \<eta>" using E' by (simp add: K_def algebra_simps)
  moreover have "K * E \<le> K * (T + 25 * \<eta>)" using E K0 unfolding T_def by (intro mult_left_mono)
  moreover have "K * (T + 25 * \<eta>) = K * T + 25 * (K * \<eta>)" by (simp add: algebra_simps)
  moreover have "K * \<eta> \<le> 24 / 25 * \<eta>" using K \<eta> unfolding K_def by (intro mult_right_mono)
  ultimately have "E' \<le> w * q * P + K * T + 25 * \<eta>" by linarith
  moreover have "((1 + w) * (A + 1) - 1) * (P * q) = w * q * P + K * T"
    by (simp add: K_def T_def algebra_simps)
  ultimately show ?thesis by simp
qed

lemma decay_props:
  assumes "is_double v"
  shows "\<exists>r. decay k (Fin v) = Fin r \<and> is_double r \<and> \<bar>r\<bar> \<le> \<bar>v\<bar> \<and> (v \<noteq> 0 \<longrightarrow> r \<noteq> 0)
    \<and> \<bar>r - v * (19 / 20) ^ k\<bar>
        \<le> ((1 + 2 powi (- 52)) ^ k - 1) * (\<bar>v\<bar> * (19 / 20) ^ k) + 25 * 2 powi (- 1075)"
proof (induction k)
  case 0
  then show ?case using assms by (simp add: decay_def)
next
  case (Suc k)
  define w :: real where "w = 2 powi (- 52)"
  define q :: real where "q = 19 / 20"
  define \<eta> :: real where "\<eta> = 2 powi (- 1075)"
  from Suc obtain r where r: "decay k (Fin v) = Fin r" "is_double r" "\<bar>r\<bar> \<le> \<bar>v\<bar>" "v \<noteq> 0 \<longrightarrow> r \<noteq> 0"
    and e: "\<bar>r - v * q ^ k\<bar> \<le> ((1 + w) ^ k - 1) * (\<bar>v\<bar> * q ^ k) + 25 * \<eta>"
    unfolding w_def q_def \<eta>_def by blast
  obtain r' where r': "Fin r * js 0.95 = Fin r'" "is_double r'" "\<bar>r'\<bar> \<le> \<bar>r\<bar>" "r \<noteq> 0 \<longrightarrow> r' \<noteq> 0"
    and s: "\<bar>r' - r * q\<bar> \<le> w * q * \<bar>r\<bar> + \<eta>"
    using decay_step_full [OF r(2)] unfolding w_def q_def \<eta>_def by blast
  have w: "0 \<le> w" "q * (1 + w) \<le> 24 / 25" "0 \<le> q" "0 \<le> \<eta>"
    by (simp_all add: w_def q_def \<eta>_def power_int_minus)
  have w1: "1 \<le> (1 + w) ^ k" using w(1) by (intro one_le_power) simp
  have "r' - v * q ^ Suc k = (r' - r * q) + q * (r - v * q ^ k)" by (simp add: algebra_simps)
  then have "\<bar>r' - v * q ^ Suc k\<bar> \<le> \<bar>r' - r * q\<bar> + \<bar>q * (r - v * q ^ k)\<bar>" by simp
  also have "\<bar>q * (r - v * q ^ k)\<bar> = q * \<bar>r - v * q ^ k\<bar>" using w(3) by (simp add: abs_mult)
  finally have E': "\<bar>r' - v * q ^ Suc k\<bar> \<le> w * q * \<bar>r\<bar> + \<eta> + q * \<bar>r - v * q ^ k\<bar>"
    using s by linarith
  have "\<bar>v * q ^ k\<bar> = \<bar>v\<bar> * q ^ k" using w(3) by (simp add: abs_mult)
  then have R: "\<bar>r\<bar> \<le> \<bar>v\<bar> * q ^ k + \<bar>r - v * q ^ k\<bar>" by linarith
  have "\<bar>r' - v * q ^ Suc k\<bar>
      \<le> ((1 + w) * (((1 + w) ^ k - 1) + 1) - 1) * (\<bar>v\<bar> * q ^ k * q) + 25 * \<eta>"
    using w(1,3,2,4) _ _ e R E' by (rule decay_error_induct) (use w w1 in simp_all)
  then have b: "\<bar>r' - v * q ^ Suc k\<bar> \<le> ((1 + w) ^ Suc k - 1) * (\<bar>v\<bar> * q ^ Suc k) + 25 * \<eta>"
    by (simp add: algebra_simps)
  have "decay (Suc k) (Fin v) = Fin r'" unfolding decay_Suc r(1) by (rule r'(1))
  moreover have "\<bar>r'\<bar> \<le> \<bar>v\<bar>" using r'(3) r(3) by linarith
  moreover have "v \<noteq> 0 \<longrightarrow> r' \<noteq> 0" using r(4) r'(4) by blast
  ultimately show ?case using r'(2) b unfolding w_def q_def \<eta>_def by blast
qed

lemma grid_floor:
  assumes "is_double r"
  shows "real_of_int \<lfloor>\<bar>r\<bar> / 2 powi (- 1074)\<rfloor> = \<bar>r\<bar> / 2 powi (- 1074)"
proof -
  obtain n :: int where n: "r = of_int n * 2 powi (- 1074)" using double_grid [OF assms] by blast
  have "\<bar>r\<bar> / 2 powi (- 1074) = of_int \<bar>n\<bar>" by (simp add: n abs_mult)
  then show ?thesis by (simp only: floor_of_int)
qed

lemma decay_settles:
  assumes "is_double v"
  shows "\<exists>K s. \<bar>s\<bar> < 10 * 2 powi (- 1074) \<and> (\<forall>j. decay (K + j) (Fin v) = Fin s)"
  using assms
proof (induction v rule: measure_induct_rule [where f = "\<lambda>v. nat \<lfloor>\<bar>v\<bar> / 2 powi (- 1074)\<rfloor>"])
  case (less v)
  show ?case
  proof (cases "\<bar>v\<bar> < 10 * 2 powi (- 1074)")
    case True
    obtain r' where "Fin v * js 0.95 = Fin r'" "\<bar>v\<bar> < 10 * 2 powi (- 1074) \<longrightarrow> r' = v"
      using decay_step_full [OF less.prems] by blast
    then have stay: "Fin v * js 0.95 = Fin v" using True by simp
    have "decay j (Fin v) = Fin v" for j
    proof (induction j)
      case 0
      show ?case by (simp add: decay_def)
    next
      case (Suc j)
      show ?case unfolding decay_Suc Suc by (rule stay)
    qed
    then have "\<forall>j. decay (0 + j) (Fin v) = Fin v" by simp
    then show ?thesis using True by blast
  next
    case False
    then obtain v' where v': "Fin v * js 0.95 = Fin v'" "is_double v'" "\<bar>v'\<bar> < \<bar>v\<bar>"
      using decay_step_full [OF less.prems] by (metis linorder_not_less)
    have "\<bar>v'\<bar> / 2 powi (- 1074) < \<bar>v\<bar> / 2 powi (- 1074)"
      using v'(3) by (intro divide_strict_right_mono) simp_all
    then have "real_of_int \<lfloor>\<bar>v'\<bar> / 2 powi (- 1074)\<rfloor> < real_of_int \<lfloor>\<bar>v\<bar> / 2 powi (- 1074)\<rfloor>"
      by (simp only: grid_floor [OF v'(2)] grid_floor [OF less.prems])
    then have "\<lfloor>\<bar>v'\<bar> / 2 powi (- 1074)\<rfloor> < \<lfloor>\<bar>v\<bar> / 2 powi (- 1074)\<rfloor>" by simp
    moreover have "0 \<le> \<lfloor>\<bar>v'\<bar> / 2 powi (- 1074)\<rfloor>" by simp
    ultimately have "nat \<lfloor>\<bar>v'\<bar> / 2 powi (- 1074)\<rfloor> < nat \<lfloor>\<bar>v\<bar> / 2 powi (- 1074)\<rfloor>" by linarith
    then obtain K s where s: "\<bar>s\<bar> < 10 * 2 powi (- 1074)" "\<forall>j. decay (K + j) (Fin v') = Fin s"
      using less.IH [OF _ v'(2)] by blast
    have "decay (Suc K + j) (Fin v) = Fin s" for j
    proof -
      have "decay (Suc K + j) (Fin v) = decay (K + j) (Fin v * js 0.95)"
        by (simp add: decay_Suc_right del: times_jsnum.simps)
      then show ?thesis using s(2) by (simp only: v'(1))
    qed
    then show ?thesis using s(1) by blast
  qed
qed

lemma velocity_frame: "velocity (bgUniforms (frame h a)) = velocity (bgUniforms a) * js 0.95"
  by (simp add: frame_def Let_def updateCursorTrail_fields)

lemma velocity_fold:
  assumes "\<not> list_ex isSetVelocity cs"
  shows "velocityUniform (fold perform cs (Enabled a))
    = Some (decay (length (filter isUpdate cs)) (velocity (bgUniforms a)))"
  using assms
proof (induction cs arbitrary: a)
  case Nil
  then show ?case by (simp add: decay_def)
next
  case (Cons c cs)
  then have cs: "\<not> list_ex isSetVelocity cs" and c: "\<not> isSetVelocity c" by simp_all
  show ?case
  proof (cases c)
    case (Update h)
    then show ?thesis using Cons.IH [OF cs, of "frame h a"]
      by (simp add: velocity_frame decay_Suc_right)
  next
    case (SetVelocity v)
    then show ?thesis using c by simp
  qed (use Cons.IH [OF cs] in \<open>simp_all add: Let_def\<close>)
qed

text \<open>
  Claim C3, amended. Let \<^verbatim>\<open>setVelocity(v)\<close> store a finite Number \<open>v\<close> and let any
  calls but \<^verbatim>\<open>setVelocity\<close> follow, \<open>k\<close> of them \<^verbatim>\<open>update()\<close>. Then the velocity
  uniform is the result \<open>r\<close> of \<open>k\<close> successive binary64 products with the literal
  \<^verbatim>\<open>0.95\<close>, and \<open>r\<close> is \<open>v * 0.95 ^ k\<close> up to the rounding of the products:
  \<open>\<bar>r - v * 0.95 ^ k\<bar> \<le> ((1 + 2 powi (- 52)) ^ k - 1) * \<bar>v\<bar> * 0.95 ^ k + 2 powi (- 1070)\<close>.
  As long as \<open>\<bar>r\<bar>\<close> is at least \<open>10 * 2 powi (- 1074)\<close> the next frame strictly
  decreases the magnitude; once \<open>\<bar>r\<bar>\<close> is below \<open>10 * 2 powi (- 1074)\<close> the next frame
  leaves the uniform unchanged. The magnitude never exceeds \<open>\<bar>v\<bar>\<close>, for \<open>v \<noteq> 0\<close>
  the uniform is never \<open>0\<close>, and after finitely many frames it stays at one value
  of magnitude below \<open>10 * 2 powi (- 1074)\<close> for ever.
\<close>

theorem velocity_decay:
  assumes "is_double v" and "\<not> list_ex isSetVelocity cs"
  shows "velocityUniform (fold perform cs (setVelocity (Fin v) (Enabled a)))
      = Some (decay (length (filter isUpdate cs)) (Fin v))
    \<and> (\<exists>r r'. decay k (Fin v) = Fin r \<and> decay (Suc k) (Fin v) = Fin r'
          \<and> \<bar>r - v * 0.95 ^ k\<bar>
              \<le> ((1 + 2 powi (- 52)) ^ k - 1) * (\<bar>v\<bar> * 0.95 ^ k) + 2 powi (- 1070)
          \<and> (10 * 2 powi (- 1074) \<le> \<bar>r\<bar> \<longrightarrow> \<bar>r'\<bar> < \<bar>r\<bar>)
          \<and> (\<bar>r\<bar> < 10 * 2 powi (- 1074) \<longrightarrow> r' = r)
          \<and> \<bar>r\<bar> \<le> \<bar>v\<bar> \<and> (v \<noteq> 0 \<longrightarrow> r \<noteq> 0))
    \<and> (\<exists>K s. \<bar>s\<bar> < 10 * 2 powi (- 1074) \<and> (v \<noteq> 0 \<longrightarrow> s \<noteq> 0)
          \<and> (\<forall>j. decay (K + j) (Fin v) = Fin s))"
proof -
  have 1: "velocityUniform (fold perform cs (setVelocity (Fin v) (Enabled a)))
      = Some (decay (length (filter isUpdate cs)) (Fin v))"
    using velocity_fold [OF assms(2)] by simp
  obtain r where r: "decay k (Fin v) = Fin r" "is_double r" "\<bar>r\<bar> \<le> \<bar>v\<bar>" "v \<noteq> 0 \<longrightarrow> r \<noteq> 0"
    and e: "\<bar>r - v * (19 / 20) ^ k\<bar>
        \<le> ((1 + 2 powi (- 52)) ^ k - 1) * (\<bar>v\<bar> * (19 / 20) ^ k) + 25 * 2 powi (- 1075)"
    using decay_props [OF assms(1), of k] by blast
  obtain r' where r': "Fin r * js 0.95 = Fin r'"
    and s: "10 * 2 powi (- 1074) \<le> \<bar>r\<bar> \<longrightarrow> \<bar>r'\<bar> < \<bar>r\<bar>" "\<bar>r\<bar> < 10 * 2 powi (- 1074) \<longrightarrow> r' = r"
    using decay_step_full [OF r(2)] by blast
  have 2: "decay (Suc k) (Fin v) = Fin r'" unfolding decay_Suc r(1) by (rule r')
  have "25 * (2::real) powi (- 1075) \<le> 32 * 2 powi (- 1075)" by simp
  also have "32 * (2::real) powi (- 1075) = 2 powi 5 * 2 powi (- 1075)" by simp
  also have "\<dots> = 2 powi (5 + - 1075)" by (rule power_int_add [symmetric]) simp
  finally have "25 * (2::real) powi (- 1075) \<le> 2 powi (- 1070)" by simp
  then have 3: "\<bar>r - v * 0.95 ^ k\<bar>
      \<le> ((1 + 2 powi (- 52)) ^ k - 1) * (\<bar>v\<bar> * 0.95 ^ k) + 2 powi (- 1070)"
    using e by simp
  obtain K t where t: "\<bar>t\<bar> < 10 * 2 powi (- 1074)" "\<forall>j. decay (K + j) (Fin v) = Fin t"
    using decay_settles [OF assms(1)] by blast
  obtain t' where "decay K (Fin v) = Fin t'" "v \<noteq> 0 \<longrightarrow> t' \<noteq> 0"
    using decay_props [OF assms(1), of K] by blast
  moreover have "decay K (Fin v) = Fin t" using t(2) [rule_format, of 0] by simp
  ultimately have 4: "v \<noteq> 0 \<longrightarrow> t \<noteq> 0" by simp
  show ?thesis using 1 r(1,3,4) 2 3 s t 4 by blast
qed

lemma is_double_smallest: "is_double (2 powi (- 1074))"
proof -
  have "representable 53 (- 1074) (2 powi (- 1074))" by (rule representable_pow) simp_all
  moreover have "(2::real) powi (- 1074) < 2 powi 1024" by (rule power_int_strict_increasing) simp_all
  ultimately show ?thesis by (simp add: is_double_def)
qed

text \<open>
  The hypotheses of the amended claim C3 hold of the velocity \<open>1\<close>, whose magnitude
  the first frame strictly decreases, and of the velocity \<open>2 powi (- 1074)\<close>, which
  the first frame leaves unchanged.
\<close>

theorem velocity_decay_witness:
  "is_double 1 \<and> is_double (2 powi (- 1074))
   \<and> \<not> list_ex isSetVelocity [Update sample_host, SetMouse (Fin 0) (Fin 0), Update sample_host]
   \<and> velocityUniform (fold perform [Update sample_host, SetMouse (Fin 0) (Fin 0), Update sample_host]
        (setVelocity (Fin 1) (Enabled sample_active)))
      = Some (decay (length (filter isUpdate
          [Update sample_host, SetMouse (Fin 0) (Fin 0), Update sample_host])) (Fin 1))
   \<and> 10 * 2 powi (- 1074) \<le> \<bar>1 :: real\<bar>
   \<and> (\<exists>r'. decay (Suc 0) (Fin 1) = Fin r' \<and> \<bar>r'\<bar> < \<bar>1\<bar>)
   \<and> \<bar>(2::real) powi (- 1074)\<bar> < 10 * 2 powi (- 1074)
   \<and> decay (Suc 0) (Fin (2 powi (- 1074))) = Fin (2 powi (- 1074))
   \<and> (1::real) \<noteq> 0 \<and> (\<exists>r. decay 2 (Fin 1) = Fin r \<and> r \<noteq> 0)"
proof -
  define u :: real where "u = 2 powi (- 1074)"
  let ?cs = "[Update sample_host, SetMouse (Fin 0) (Fin 0), Update sample_host]"
  have 1: "is_double 1" using is_double_int [of 1] by simp
  have 2: "is_double u" unfolding u_def by (rule is_double_smallest)
  have 3: "\<not> list_ex isSetVelocity ?cs" by simp
  have d0: "decay 0 x = x" for x by (simp add: decay_def)
  have u0: "0 < u" by (simp add: u_def)
  have "u \<le> 2 powi (- 4)" unfolding u_def by (rule power_int_increasing) simp_all
  then have 5: "10 * u \<le> \<bar>1 :: real\<bar>" by (simp add: power_int_minus)
  have 6: "\<bar>u\<bar> < 10 * u" using u0 by simp
  have A: "velocityUniform (fold perform ?cs (setVelocity (Fin 1) (Enabled sample_active)))
      = Some (decay (length (filter isUpdate ?cs)) (Fin 1))"
    and B: "\<exists>r'. decay (Suc 0) (Fin 1) = Fin r' \<and> \<bar>r'\<bar> < \<bar>1\<bar>"
    using velocity_decay [OF 1 3, of sample_active 0] 5 unfolding d0 u_def by auto
  have C: "decay (Suc 0) (Fin u) = Fin u"
    using velocity_decay [OF 2 3, of sample_active 0] 6 unfolding d0 u_def by auto
  have D: "\<exists>r. decay 2 (Fin 1) = Fin r \<and> r \<noteq> 0"
    using velocity_decay [OF 1 3, of sample_active 2] by auto
  show ?thesis using 1 2 3 A B 5 6 C D unfolding u_def by simp
qed

text \<open>
  Claim C3, as stated, fails: from the smallest positive Number \<open>2 powi (- 1074)\<close>
  (\<^verbatim>\<open>5e-324\<close>) one \<^verbatim>\<open>update()\<close> leaves the velocity uniform where it was, since
  \<open>0.95\<close> times it rounds back to it. The magnitude has not strictly decreased, and
  the uniform is not \<open>v * 0.95\<close>. An infinite velocity is left where it was as well.
\<close>

theorem velocity_stuck_at_smallest:
  "is_double (2 powi (- 1074))
   \<and> velocityUniform (update sample_host (setVelocity (Fin (2 powi (- 1074))) (Enabled sample_active)))
       = Some (Fin (2 powi (- 1074)))
   \<and> velocityUniform (update sample_host (setVelocity PInf (Enabled sample_active))) = Some PInf"
proof -
  have "representable 53 (- 1074) (2 powi (- 1074))" by (rule representable_pow) simp_all
  moreover have "(2::real) powi (- 1074) < 2 powi 1024" by (rule power_int_strict_increasing) simp_all
  ultimately have 1: "is_double (2 powi (- 1074))" by (simp add: is_double_def)
  have n: "nearest 53 (- 1074) (2 powi (- 1074) * (8556839292003942 / 2 ^ 53)) = 2 powi (- 1074)"
    by (rule nearest_smallest) simp_all
  have "\<bar>(2::real) powi (- 1074)\<bar> < 2 powi 1024" using 1 by (simp only: is_double_def)
  then have "\<bar>nearest 53 (- 1074) (2 powi (- 1074) * (8556839292003942 / 2 ^ 53))\<bar> < 2 powi 1024"
    by (simp only: n)
  then have "rnd64 (2 powi (- 1074) * (8556839292003942 / 2 ^ 53))
      = Fin (nearest 53 (- 1074) (2 powi (- 1074) * (8556839292003942 / 2 ^ 53)))"
    by (rule rnd64_Fin)
  then have "rnd64 (2 powi (- 1074) * (8556839292003942 / 2 ^ 53)) = Fin (2 powi (- 1074))"
    by (simp only: n)
  then have "Fin (2 powi (- 1074)) * js 0.95 = Fin (2 powi (- 1074))"
    unfolding js_095 by (simp only: times_jsnum.simps)
  then have 2: "velocityUniform (update sample_host (setVelocity (Fin (2 powi (- 1074))) (Enabled sample_active)))
       = Some (Fin (2 powi (- 1074)))"
    by (simp add: velocity_frame)
  have "PInf * js 0.95 = PInf" unfolding js_095 by simp
  then have 3: "velocityUniform (update sample_host (setVelocity PInf (Enabled sample_active))) = Some PInf"
    by (simp add: velocity_frame)
  show ?thesis using 1 2 3 by blast
qed

section \<open>The projected point and the target plane\<close>

lemma plane_error:
  fixes u \<eta> :: real
  assumes u: "0 \<le> u" "u \<le> 1 / 8" and \<eta>: "0 \<le> \<eta>"
    and e1: "\<bar>a - (z - c)\<bar> \<le> u * \<bar>z - c\<bar> + \<eta>"
    and e2: "\<bar>q - a / d\<bar> \<le> u * \<bar>a / d\<bar> + \<eta>"
    and e3: "\<bar>m - d * q\<bar> \<le> u * \<bar>d * q\<bar> + \<eta>"
    and e4: "\<bar>r - (c + m)\<bar> \<le> u * \<bar>c + m\<bar> + \<eta>"
    and d: "d \<noteq> 0"
  shows "\<bar>r - z\<bar> \<le> 8 * u * (\<bar>z\<bar> + \<bar>c\<bar>) + 8 * \<eta> * (1 + \<bar>d\<bar>)"
proof -
  define D where "D = \<bar>z - c\<bar>"
  define A where "A = \<bar>a\<bar>"
  define Q where "Q = \<bar>d * q\<bar>"
  define G where "G = \<bar>d * q - a\<bar>"
  define E where "E = \<bar>c + m - z\<bar>"
  have D0: "0 \<le> D" and A0: "0 \<le> A" and Q0: "0 \<le> Q" and G0: "0 \<le> G" and E0: "0 \<le> E"
    by (simp_all add: D_def A_def Q_def G_def E_def)
  have DD: "D \<le> \<bar>z\<bar> + \<bar>c\<bar>" unfolding D_def by simp
  have a1: "A \<le> D + u * D + \<eta>" using e1 unfolding A_def D_def by linarith
  \<comment> \<open>the quotient, scaled back by \<open>d\<close>\<close>
  have "\<bar>d\<bar> * \<bar>q - a / d\<bar> \<le> \<bar>d\<bar> * (u * \<bar>a / d\<bar> + \<eta>)"
    using e2 by (intro mult_left_mono) simp_all
  moreover have "\<bar>d\<bar> * \<bar>q - a / d\<bar> = G"
  proof -
    have "d * (q - a / d) = d * q - a" using d by (simp add: algebra_simps)
    then show ?thesis unfolding G_def by (metis abs_mult)
  qed
  moreover have "\<bar>d\<bar> * (u * \<bar>a / d\<bar> + \<eta>) = u * A + \<eta> * \<bar>d\<bar>"
    using d by (simp add: A_def algebra_simps abs_divide)
  ultimately have g1: "G \<le> u * A + \<eta> * \<bar>d\<bar>" by simp
  have q1: "Q \<le> A + G" unfolding Q_def A_def G_def by linarith
  have m1: "\<bar>m - d * q\<bar> \<le> u * Q + \<eta>" using e3 by (simp add: Q_def)
  have E1: "E \<le> (u * D + \<eta>) + (u * Q + \<eta>) + G"
    using e1 m1 unfolding E_def G_def D_def by linarith
  have r1: "\<bar>r - z\<bar> \<le> u * \<bar>c + m\<bar> + \<eta> + E" using e4 unfolding E_def by linarith
  have cm: "\<bar>c + m\<bar> \<le> \<bar>z\<bar> + E" unfolding E_def by linarith
  \<comment> \<open>products with \<open>u\<close>\<close>
  have uD0: "0 \<le> u * D" and ueta0: "0 \<le> u * \<eta>" and ed0: "0 \<le> \<eta> * \<bar>d\<bar>" and uz0: "0 \<le> u * \<bar>z\<bar>"
    using u \<eta> D0 by simp_all
  have uuD: "u * (u * D) \<le> (1 / 8) * (u * D)" using u uD0 by (intro mult_right_mono) simp_all
  have ueta: "u * \<eta> \<le> (1 / 8) * \<eta>" using u \<eta> by (intro mult_right_mono) simp_all
  have ued: "u * (\<eta> * \<bar>d\<bar>) \<le> (1 / 8) * (\<eta> * \<bar>d\<bar>)" using u ed0 by (intro mult_right_mono) simp_all
  have "u * A \<le> u * (D + u * D + \<eta>)" using a1 u by (intro mult_left_mono) simp_all
  then have uA: "u * A \<le> u * D + u * (u * D) + u * \<eta>" by (simp add: algebra_simps)
  have g2: "G \<le> (9 / 8) * (u * D) + (1 / 8) * \<eta> + \<eta> * \<bar>d\<bar>" using g1 uA uuD ueta by linarith
  have "u * G \<le> u * ((9 / 8) * (u * D) + (1 / 8) * \<eta> + \<eta> * \<bar>d\<bar>)"
    using g2 u by (intro mult_left_mono) simp_all
  then have uG: "u * G \<le> (9 / 8) * (u * (u * D)) + (1 / 8) * (u * \<eta>) + u * (\<eta> * \<bar>d\<bar>)"
    by (simp add: algebra_simps)
  have "u * Q \<le> u * (A + G)" using q1 u by (intro mult_left_mono) simp_all
  then have uQ: "u * Q \<le> u * A + u * G" by (simp add: algebra_simps)
  have uQ2: "u * Q \<le> (11 / 8) * (u * D) + (2 / 8) * \<eta> + (1 / 8) * (\<eta> * \<bar>d\<bar>)"
    using uQ uA uG uuD ueta ued uD0 \<eta> ed0 by linarith
  have E2: "E \<le> (28 / 8) * (u * D) + (19 / 8) * \<eta> + (9 / 8) * (\<eta> * \<bar>d\<bar>)"
    using E1 uQ2 g2 by linarith
  have "u * E \<le> u * ((28 / 8) * (u * D) + (19 / 8) * \<eta> + (9 / 8) * (\<eta> * \<bar>d\<bar>))"
    using E2 u by (intro mult_left_mono) simp_all
  then have "u * E \<le> (28 / 8) * (u * (u * D)) + (19 / 8) * (u * \<eta>) + (9 / 8) * (u * (\<eta> * \<bar>d\<bar>))"
    by (simp add: algebra_simps)
  then have uE: "u * E \<le> (1 / 2) * (u * D) + (1 / 2) * \<eta> + (1 / 4) * (\<eta> * \<bar>d\<bar>)"
    using uuD ueta ued uD0 \<eta> ed0 by linarith
  have "u * \<bar>c + m\<bar> \<le> u * (\<bar>z\<bar> + E)" using cm u by (intro mult_left_mono) simp_all
  then have ucm: "u * \<bar>c + m\<bar> \<le> u * \<bar>z\<bar> + u * E" by (simp add: algebra_simps)
  define T where "T = u * (\<bar>z\<bar> + \<bar>c\<bar>)"
  define UD where "UD = u * D"
  define UZ where "UZ = u * \<bar>z\<bar>"
  define H where "H = \<eta> * \<bar>d\<bar>"
  define R where "R = \<bar>r - z\<bar>"
  have "u * E \<le> (1 / 2) * UD + (1 / 2) * \<eta> + (1 / 4) * H" using uE by (simp add: UD_def H_def)
  moreover have "E \<le> (28 / 8) * UD + (19 / 8) * \<eta> + (9 / 8) * H" using E2 by (simp add: UD_def H_def)
  moreover have "R \<le> u * \<bar>c + m\<bar> + \<eta> + E" using r1 by (simp add: R_def)
  moreover have "u * \<bar>c + m\<bar> \<le> UZ + u * E" using ucm by (simp add: UZ_def)
  ultimately have "R \<le> UZ + 4 * UD + 4 * \<eta> + 2 * H"
    using \<eta> ed0 uD0 unfolding H_def UD_def by linarith
  moreover have "UD \<le> T" unfolding UD_def T_def using DD u by (intro mult_left_mono) simp_all
  moreover have "UZ \<le> T" unfolding UZ_def T_def using u by (intro mult_left_mono) simp_all
  moreover have "0 \<le> T" using u by (simp add: T_def)
  moreover have "0 \<le> H" using ed0 by (simp add: H_def)
  ultimately have "R \<le> 8 * T + 8 * \<eta> + 8 * H"
    using \<eta> by linarith
  then show ?thesis unfolding R_def T_def H_def by (simp add: algebra_simps)
qed

lemma vz_mouseToWorld:
  "vz (mouseToWorld h cam nx ny z) =
    vz (position cam)
      + vz (rayDirection h cam nx ny) * ((z - vz (position cam)) / vz (rayDirection h cam nx ny))"
  by (simp add: mouseToWorld_def Let_def v_add_def multiplyScalar_def)

lemma finite_chain:
  assumes "Fin c + Fin d * ((Fin z - Fin c) / Fin d) = Fin r" and "d \<noteq> 0"
  shows "\<exists>a q m. rnd64 (z - c) = Fin a \<and> rnd64 (a / d) = Fin q \<and> rnd64 (d * q) = Fin m
    \<and> rnd64 (c + m) = Fin r"
proof -
  have s: "Fin z - Fin c = rnd64 (z - c)" by (simp add: minus_jsnum_def)
  show ?thesis
  proof (cases "rnd64 (z - c)")
    case (Fin a)
    show ?thesis
    proof (cases "rnd64 (a / d)")
      case q: (Fin q)
      show ?thesis
      proof (cases "rnd64 (d * q)")
        case m: (Fin m)
        have "rnd64 (c + m) = Fin r" using assms by (simp add: s Fin q m)
        then show ?thesis using Fin q m by blast
      qed (use assms in \<open>simp_all add: s Fin q\<close>)
    qed (use assms in \<open>simp_all add: s Fin split: if_splits\<close>)
  qed (use assms in \<open>simp_all add: s split: if_splits\<close>)
qed

text \<open>
  Claim C4, amended. \<^verbatim>\<open>_mouseToWorld(nx, ny, z)\<close> builds the device-space point
  \<open>(nx, -ny, 0.5)\<close>, unprojects it through the camera, normalizes its difference to
  the camera position into the ray direction, and returns
  \<open>camera.position + t * direction\<close> with \<open>t = (z - camera.position.z) / direction.z\<close>,
  every operation rounded to binary64. When \<open>direction.z\<close> is not \<open>0\<close> and the
  \<open>z\<close> coordinate \<open>r\<close> of the result is finite, \<open>r\<close> differs from the target \<open>z\<close>
  by no more than the rounding of the four operations that produce it: at most
  \<open>2 powi (- 50) * (\<bar>z\<bar> + \<bar>c\<bar>) + 2 powi (- 1072) * (1 + \<bar>d\<bar>)\<close>, where \<open>c\<close> is the
  camera's \<open>z\<close> and \<open>d\<close> is \<open>direction.z\<close>. The point lies on the target plane up to
  that error, not exactly.
\<close>

theorem mouseToWorld_near_plane:
  assumes "vz (position cam) = Fin c" and "vz (rayDirection h cam nx ny) = Fin d" and "d \<noteq> 0"
    and "vz (mouseToWorld h cam nx ny (Fin z)) = Fin r"
  shows "rayDirection h cam nx ny
      = normalize (v_sub (unproject h cam (Vector3 nx (- ny) (js 0.5))) (position cam))
    \<and> mouseToWorld h cam nx ny (Fin z)
      = v_add (position cam)
          (multiplyScalar (rayDirection h cam nx ny) ((Fin z - Fin c) / Fin d))
    \<and> \<bar>r - z\<bar> \<le> 2 powi (- 50) * (\<bar>z\<bar> + \<bar>c\<bar>) + 2 powi (- 1072) * (1 + \<bar>d\<bar>)"
proof -
  have 1: "rayDirection h cam nx ny
      = normalize (v_sub (unproject h cam (Vector3 nx (- ny) (js 0.5))) (position cam))"
    by (simp add: rayDirection_def Let_def)
  have 2: "mouseToWorld h cam nx ny (Fin z)
      = v_add (position cam)
          (multiplyScalar (rayDirection h cam nx ny) ((Fin z - Fin c) / Fin d))"
    by (simp add: mouseToWorld_def Let_def assms(1,2))
  have "Fin c + Fin d * ((Fin z - Fin c) / Fin d) = Fin r"
    using assms(4) unfolding vz_mouseToWorld assms(1,2) .
  then obtain a q m where a: "rnd64 (z - c) = Fin a" and q: "rnd64 (a / d) = Fin q"
    and m: "rnd64 (d * q) = Fin m" and r: "rnd64 (c + m) = Fin r"
    using finite_chain [OF _ assms(3)] by blast
  have "\<bar>r - z\<bar> \<le> 8 * 2 powi (- 53) * (\<bar>z\<bar> + \<bar>c\<bar>) + 8 * 2 powi (- 1075) * (1 + \<bar>d\<bar>)"
    using _ _ _ rnd64_error [OF a] rnd64_error [OF q] rnd64_error [OF m] rnd64_error [OF r] assms(3)
    by (rule plane_error) simp_all
  moreover have "8 * (2::real) powi (- 53) = 2 powi (- 50)" "8 * (2::real) powi (- 1075) = 2 powi (- 1072)"
    by simp_all
  ultimately have 3: "\<bar>r - z\<bar> \<le> 2 powi (- 50) * (\<bar>z\<bar> + \<bar>c\<bar>) + 2 powi (- 1072) * (1 + \<bar>d\<bar>)"
    by simp
  show ?thesis using 1 2 3 by blast
qed

lemma rayDirection_sample:
  "rayDirection sample_host (initCamera sample_host) (Fin 0) (Fin 0)
    = Vector3 (Fin 0) (Fin 0) (Fin (- 1))"
  by (simp add: rayDirection_def Let_def sample_host_def initCamera_def
      normalize_def divideScalar_def multiplyScalar_def v_length_def v_sub_def js_or_def
      Vector3_def js_def minus_jsnum_def rnd64_0 rnd64_1 rnd64_30 rnd64_m1)

lemma vz_initCamera: "vz (position (initCamera h)) = Fin 30"
  by (simp add: initCamera_def Vector3_def js_def rnd64_30)

text \<open>
  The hypotheses of the amended claim C4 hold at the centre of the screen and the
  depth \<open>5\<close> of the trail, where the result lies on the plane exactly.
\<close>

theorem mouseToWorld_near_plane_witness:
  "vz (position (initCamera sample_host)) = Fin 30
   \<and> vz (rayDirection sample_host (initCamera sample_host) (Fin 0) (Fin 0)) = Fin (- 1)
   \<and> (- 1 :: real) \<noteq> 0
   \<and> vz (mouseToWorld sample_host (initCamera sample_host) (Fin 0) (Fin 0) (Fin 5)) = Fin 5
   \<and> \<bar>5 - 5 :: real\<bar> \<le> 2 powi (- 50) * (\<bar>5\<bar> + \<bar>30\<bar>) + 2 powi (- 1072) * (1 + \<bar>- 1\<bar>)"
proof -
  have 1: "vz (position (initCamera sample_host)) = Fin 30" by (rule vz_initCamera)
  have 2: "vz (rayDirection sample_host (initCamera sample_host) (Fin 0) (Fin 0)) = Fin (- 1)"
    by (simp add: rayDirection_sample Vector3_def)
  have 3: "(- 1 :: real) \<noteq> 0" by simp
  have 4: "vz (mouseToWorld sample_host (initCamera sample_host) (Fin 0) (Fin 0) (Fin 5)) = Fin 5"
    unfolding vz_mouseToWorld 1 2
    by (simp add: minus_jsnum_def rnd64_m25 rnd64_25 rnd64_5)
  show ?thesis
    using mouseToWorld_near_plane [OF 1 2 3 4] 1 2 3 4 by blast
qed

text \<open>
  Claim C4, as stated, fails: with the ray direction \<open>(0, 0, -1)\<close> and the camera at
  \<open>z = 30\<close>, \<^verbatim>\<open>_mouseToWorld(0, 0, 0.1)\<close> returns a point whose \<open>z\<close> coordinate is
  \<open>7205759403792896 / 2 ^ 56\<close> (\<^verbatim>\<open>0.10000000000000142\<close>), which is not the target
  \<open>7205759403792794 / 2 ^ 56\<close> (\<^verbatim>\<open>0.1\<close>): the difference \<^verbatim>\<open>0.1 - 30\<close> is rounded.
\<close>

theorem mouseToWorld_off_plane:
  "vz (rayDirection sample_host (initCamera sample_host) (Fin 0) (Fin 0)) = Fin (- 1)
   \<and> js 0.1 = Fin (7205759403792794 / 2 ^ 56)
   \<and> vz (mouseToWorld sample_host (initCamera sample_host) (Fin 0) (Fin 0) (js 0.1))
       = Fin (7205759403792896 / 2 ^ 56)
   \<and> vz (mouseToWorld sample_host (initCamera sample_host) (Fin 0) (Fin 0) (js 0.1)) \<noteq> js 0.1"
proof -
  have 2: "vz (rayDirection sample_host (initCamera sample_host) (Fin 0) (Fin 0)) = Fin (- 1)"
    by (simp add: rayDirection_sample Vector3_def)
  have a: "rnd64 (7205759403792794 / 2 ^ 56 + - 30) = Fin (- (8416101803648614 / 2 ^ 48))"
  proof -
    have "rnd64 (7205759403792794 / 2 ^ 56 + - 30) = Fin (of_int (- 8416101803648614) * 2 powi (- 48))"
      by (rule rnd64_eval [where k = 4]) (simp_all add: rne_def Let_def)
    then show ?thesis by (simp add: power_int_minus divide_simps)
  qed
  have q: "rnd64 (- (8416101803648614 / 2 ^ 48) / - 1) = Fin (8416101803648614 / 2 ^ 48)"
  proof -
    have "rnd64 (- (8416101803648614 / 2 ^ 48) / - 1) = Fin (of_int 8416101803648614 * 2 powi (- 48))"
      by (rule rnd64_eval [where k = 4]) (simp_all add: rne_def Let_def)
    then show ?thesis by (simp add: power_int_minus divide_simps)
  qed
  have m: "rnd64 (- 1 * (8416101803648614 / 2 ^ 48)) = Fin (- (8416101803648614 / 2 ^ 48))"
  proof -
    have "rnd64 (- 1 * (8416101803648614 / 2 ^ 48)) = Fin (of_int (- 8416101803648614) * 2 powi (- 48))"
      by (rule rnd64_eval [where k = 4]) (simp_all add: rne_def Let_def)
    then show ?thesis by (simp add: power_int_minus divide_simps)
  qed
  have r: "rnd64 (30 + - (8416101803648614 / 2 ^ 48)) = Fin (7205759403792896 / 2 ^ 56)"
  proof -
    have "rnd64 (30 + - (8416101803648614 / 2 ^ 48)) = Fin (of_int 7205759403792896 * 2 powi (- 56))"
      by (rule rnd64_eval [where k = "- 4"]) (simp_all add: rne_def Let_def)
    then show ?thesis by (simp add: power_int_minus divide_simps)
  qed
  have "vz (mouseToWorld sample_host (initCamera sample_host) (Fin 0) (Fin 0) (js 0.1))
      = Fin 30 + Fin (- 1) * ((Fin (7205759403792794 / 2 ^ 56) + - Fin 30) / Fin (- 1))"
    unfolding vz_mouseToWorld vz_initCamera 2 js_01 minus_jsnum_def ..
  also have "\<dots> = Fin (7205759403792896 / 2 ^ 56)"
  proof -
    have d: "Fin x / Fin (- 1) = rnd64 (x / - 1)" for x by simp
    show ?thesis
      by (simp only: uminus_jsnum.simps plus_jsnum.simps d times_jsnum.simps a q m r)
  qed
  finally have 3: "vz (mouseToWorld sample_host (initCamera sample_host) (Fin 0) (Fin 0) (js 0.1))
      = Fin (7205759403792896 / 2 ^ 56)" .
  have 4: "vz (mouseToWorld sample_host (initCamera sample_host) (Fin 0) (Fin 0) (js 0.1)) \<noteq> js 0.1"
  proof
    assume e: "vz (mouseToWorld sample_host (initCamera sample_host) (Fin 0) (Fin 0) (js 0.1)) = js 0.1"
    have "Fin (7205759403792896 / 2 ^ 56)
        = vz (mouseToWorld sample_host (initCamera sample_host) (Fin 0) (Fin 0) (js 0.1))"
      by (rule 3 [symmetric])
    also have "\<dots> = js 0.1" by (rule e)
    also have "\<dots> = Fin (7205759403792794 / 2 ^ 56)" by (rule js_01)
    finally show False by simp
  qed
  show ?thesis using 2 js_01 3 4 by blast
qed

section \<open>Parallax and depth\<close>

lemma parallaxStrength_eq:
  assumes "vz (basePosition m) = Fin z" and "\<bar>z\<bar> \<le> 25"
  shows "parallaxStrength m = Fin (strength z)"
proof -
  define f where "f = nearest 53 (- 1074) (\<bar>z\<bar> / 25)"
  define g where "g = nearest 53 (- 1074) (1 - f)"
  define c where "c = nearest 53 (- 1074) 0.8"
  have q: "0 \<le> \<bar>z\<bar> / 25" "\<bar>z\<bar> / 25 \<le> 1" using assms(2) by simp_all
  have f: "0 \<le> f" "f \<le> 1" unfolding f_def using q by (rule nearest_unit)+
  have g: "0 \<le> g" "g \<le> 1" unfolding g_def using f by (intro nearest_unit; simp)+
  have c: "0 \<le> c" "c \<le> 1" unfolding c_def by (intro nearest_unit; simp)+
  have cg: "0 \<le> c * g" "c * g \<le> 1" using c g by (simp_all add: mult_le_one)
  have 1: "\<bar>Fin z\<bar> / js 25.0 = Fin f"
    using rnd64_unit [OF q] by (simp add: js_def rnd64_25 f_def)
  have 2: "js 1.0 - Fin f = Fin g"
    using rnd64_unit [of "1 - f"] f by (simp add: js_def rnd64_1 minus_jsnum_def g_def)
  have 3: "js 0.8 = Fin c"
    using rnd64_unit [of "0.8"] by (simp add: js_def c_def)
  have 4: "Fin c * Fin g = Fin (nearest 53 (- 1074) (c * g))"
    using rnd64_unit [OF cg] by simp
  show ?thesis
    unfolding parallaxStrength_def depthFactor_def assms(1) 1 2 3 4
    by (simp add: strength_def c_def g_def f_def)
qed

lemma strength_antimono:
  assumes "\<bar>z1\<bar> \<le> \<bar>z2\<bar>" and "\<bar>z2\<bar> \<le> 25"
  shows "0 \<le> strength z2" and "strength z2 \<le> strength z1" and "strength z1 \<le> 1"
proof -
  define f where "f z = nearest 53 (- 1074) (\<bar>z\<bar> / 25)" for z :: real
  define g where "g z = nearest 53 (- 1074) (1 - f z)" for z :: real
  define c where "c = nearest 53 (- 1074) 0.8"
  have s: "strength z = nearest 53 (- 1074) (c * g z)" for z
    by (simp add: strength_def c_def g_def f_def)
  have fu: "0 \<le> f z \<and> f z \<le> 1" if "\<bar>z\<bar> \<le> 25" for z
    unfolding f_def using that by (intro conjI nearest_unit) simp_all
  have gu: "0 \<le> g z \<and> g z \<le> 1" if "\<bar>z\<bar> \<le> 25" for z
    unfolding g_def using fu [OF that] by (intro conjI nearest_unit) simp_all
  have c: "0 \<le> c" "c \<le> 1" unfolding c_def by (intro nearest_unit; simp)+
  have z1: "\<bar>z1\<bar> \<le> 25" using assms by linarith
  have "f z1 \<le> f z2" unfolding f_def using assms(1) by (intro nearest_mono) (simp_all add: divide_right_mono)
  then have "g z2 \<le> g z1" unfolding g_def by (intro nearest_mono) simp_all
  then have "c * g z2 \<le> c * g z1" using c(1) by (rule mult_left_mono)
  then show "strength z2 \<le> strength z1" unfolding s by (intro nearest_mono) simp_all
  have "0 \<le> c * g z2" using c gu [OF assms(2)] by simp
  then show "0 \<le> strength z2" unfolding s by (rule nearest_nonneg)
  have "c * g z1 \<le> 1" using c gu [OF z1] by (simp add: mult_le_one)
  moreover have "0 \<le> c * g z1" using c gu [OF z1] by simp
  ultimately show "strength z1 \<le> 1" unfolding s by (intro nearest_unit)
qed

lemma animateWireframe_fields:
  "basePosition (animateWireframe h mx my m) = basePosition m"
  "speed (animateWireframe h mx my m) = speed m"
  "vx (position (animateWireframe h mx my m)) = vx (basePosition m) + mx * parallaxStrength m"
  "vy (position (animateWireframe h mx my m)) = vy (basePosition m) + my * parallaxStrength m
      + Math_sin h (bobPhase h (speed m)) * js 0.15"
  by (simp_all add: animateWireframe_def Let_def bobPhase_def)

lemma perform_keeps_objects:
  "\<exists>a'. perform c (Enabled a) = Enabled a'
     \<and> map basePosition (geometries a') = map basePosition (geometries a)
     \<and> map speed (geometries a') = map speed (geometries a)"
  by (cases c) (simp_all add: Let_def geometries_frame animateWireframe_fields comp_def)

lemma fold_keeps_objects:
  "\<exists>a'. fold perform cs (Enabled a) = Enabled a'
     \<and> map basePosition (geometries a') = map basePosition (geometries a)
     \<and> map speed (geometries a') = map speed (geometries a)"
proof (induction cs arbitrary: a)
  case Nil
  then show ?case by simp
next
  case (Cons c cs)
  obtain b where b: "perform c (Enabled a) = Enabled b"
      "map basePosition (geometries b) = map basePosition (geometries a)"
      "map speed (geometries b) = map speed (geometries a)"
    using perform_keeps_objects by blast
  then show ?case using Cons [of b] by auto
qed

lemma objects_reachable:
  "\<exists>a. fold perform cs (construct h0 (Some el)) = Enabled a
     \<and> map basePosition (geometries a) = map basePosition (initWireframes h0)
     \<and> map speed (geometries a) = map speed (initWireframes h0)"
proof -
  obtain a0 where a0: "construct h0 (Some el) = Enabled a0" "geometries a0 = initWireframes h0"
    by (simp add: construct_def)
  show ?thesis unfolding a0(1) using fold_keeps_objects [of cs a0] by (simp add: a0(2))
qed

lemma length_initWireframes: "length (initWireframes h0) = 5"
  by (simp add: initWireframes_def defs_def)

lemma objects_update:
  "objects (update h (setMouse x y (Enabled a))) = map (animateWireframe h x y) (geometries a)"
  by (simp add: geometries_frame)

lemma js_small:
  "js 4 = Fin 4" "js 6 = Fin 6" "js 8 = Fin 8" "js 10 = Fin 10" "js 12 = Fin 12"
  "js 15 = Fin 15" "js 16 = Fin 16" "js 18 = Fin 18" "js 20 = Fin 20"
  using js_int [of 4] js_int [of 6] js_int [of 8] js_int [of 10] js_int [of 12]
    js_int [of 15] js_int [of 16] js_int [of 18] js_int [of 20]
  by simp_all

lemma basePosition_initWireframes:
  "basePosition (initWireframes h0 ! 0) = Vector3 (Fin (- 10)) (Fin 6) (Fin (- 15))"
  "basePosition (initWireframes h0 ! 1) = Vector3 (Fin 12) (Fin (- 4)) (Fin (- 20))"
  "basePosition (initWireframes h0 ! 2) = Vector3 (Fin (- 6)) (Fin (- 8)) (Fin (- 12))"
  "basePosition (initWireframes h0 ! 3) = Vector3 (Fin 8) (Fin 8) (Fin (- 18))"
  "basePosition (initWireframes h0 ! 4) = Vector3 (Fin 0) (Fin (- 12)) (Fin (- 16))"
  by (simp_all add: initWireframes_def defs_def initWireframe_def js_small js_0 upt_rec)

lemma object_bases:
  assumes "i < 5"
  shows "\<exists>nx ny nz :: int. basePosition (initWireframes h0 ! i)
        = Vector3 (Fin (of_int nx)) (Fin (of_int ny)) (Fin (of_int nz))
      \<and> \<bar>nx\<bar> \<le> 12 \<and> \<bar>ny\<bar> \<le> 12 \<and> 12 \<le> \<bar>nz\<bar> \<and> \<bar>nz\<bar> \<le> 20"
proof -
  from assms consider "i = 0" | "i = 1" | "i = 2" | "i = 3" | "i = 4" by linarith
  then show ?thesis
  proof cases
    case 1
    show ?thesis unfolding 1 basePosition_initWireframes
      by (intro exI [of _ "- 10"] exI [of _ 6] exI [of _ "- 15"]) simp
  next
    case 2
    show ?thesis unfolding 2 basePosition_initWireframes
      by (intro exI [of _ 12] exI [of _ "- 4"] exI [of _ "- 20"]) simp
  next
    case 3
    show ?thesis unfolding 3 basePosition_initWireframes
      by (intro exI [of _ "- 6"] exI [of _ "- 8"] exI [of _ "- 12"]) simp
  next
    case 4
    show ?thesis unfolding 4 basePosition_initWireframes
      by (intro exI [of _ 8] exI [of _ 8] exI [of _ "- 18"]) simp
  next
    case 5
    show ?thesis unfolding 5 basePosition_initWireframes
      by (intro exI [of _ 0] exI [of _ "- 12"] exI [of _ "- 16"]) simp
  qed
qed

lemma nearest_error_unit:
  assumes "\<bar>x\<bar> \<le> 1"
  shows "\<bar>nearest 53 (- 1074) x - x\<bar> \<le> 2 powi (- 53) + 2 powi (- 1075)"
proof -
  have "\<bar>nearest 53 (- 1074) x - x\<bar> \<le> 2 powi (- int 53) * \<bar>x\<bar> + 2 powi (- 1074 - 1)"
    by (rule nearest_error) simp
  moreover have "- int 53 = - 53" "- 1074 - 1 = (- 1075 :: int)" by simp_all
  ultimately have "\<bar>nearest 53 (- 1074) x - x\<bar> \<le> 2 powi (- 53) * \<bar>x\<bar> + 2 powi (- 1075)"
    by (simp only:)
  moreover have "2 powi (- 53) * \<bar>x\<bar> \<le> 2 powi (- 53) * 1"
    using assms by (intro mult_left_mono) simp_all
  ultimately show ?thesis by simp
qed

lemma error_chain:
  fixes t W g f Z d :: real
  assumes "\<bar>t - W\<bar> \<le> d" "\<bar>W - 4 / 5 * g\<bar> \<le> d" "\<bar>g - (1 - f)\<bar> \<le> d" "\<bar>f - Z\<bar> \<le> d" "0 \<le> d"
  shows "\<bar>t - 4 / 5 * (1 - Z)\<bar> \<le> 18 / 5 * d"
proof -
  define Q where "Q = 4 / 5 * (1 - Z)"
  define G where "G = 4 / 5 * g"
  have Q: "Q = 4 / 5 - 4 / 5 * Z" by (simp add: Q_def right_diff_distrib)
  have "\<bar>t - Q\<bar> \<le> 18 / 5 * d"
    using assms unfolding Q by linarith
  then show ?thesis unfolding Q_def by simp
qed

lemma strength_error:
  assumes "\<bar>z\<bar> \<le> 25"
  shows "\<bar>strength z - 4 / 5 * (1 - \<bar>z\<bar> / 25)\<bar> \<le> 2 powi (- 51)"
proof -
  define f where "f = nearest 53 (- 1074) (\<bar>z\<bar> / 25)"
  define g where "g = nearest 53 (- 1074) (1 - f)"
  define c where "c = nearest 53 (- 1074) 0.8"
  define t where "t = nearest 53 (- 1074) (c * g)"
  define \<delta> :: real where "\<delta> = 2 powi (- 53) + 2 powi (- 1075)"
  have q: "0 \<le> \<bar>z\<bar> / 25" "\<bar>z\<bar> / 25 \<le> 1" using assms by simp_all
  have f: "0 \<le> f" "f \<le> 1" unfolding f_def using q by (rule nearest_unit)+
  have g: "0 \<le> g" "g \<le> 1" unfolding g_def using f by (intro nearest_unit; simp)+
  have c: "0 \<le> c" "c \<le> 1" unfolding c_def by (intro nearest_unit; simp)+
  have cg: "0 \<le> c * g" "c * g \<le> 1" using c g by (simp_all add: mult_le_one)
  have ef: "\<bar>f - \<bar>z\<bar> / 25\<bar> \<le> \<delta>" unfolding f_def \<delta>_def using q by (intro nearest_error_unit) simp
  have eg: "\<bar>g - (1 - f)\<bar> \<le> \<delta>" unfolding g_def \<delta>_def using f by (intro nearest_error_unit) simp
  have ec: "\<bar>c - 4 / 5\<bar> \<le> \<delta>"
    using nearest_error_unit [of "0.8"] by (simp add: c_def \<delta>_def)
  have et: "\<bar>t - c * g\<bar> \<le> \<delta>" unfolding t_def \<delta>_def using cg by (intro nearest_error_unit) simp
  have "\<bar>(c - 4 / 5) * g\<bar> \<le> \<delta> * 1"
    unfolding abs_mult using ec g by (intro mult_mono) simp_all
  then have 1: "\<bar>c * g - 4 / 5 * g\<bar> \<le> \<delta>" by (simp add: algebra_simps)
  have d0: "0 \<le> \<delta>" by (simp add: \<delta>_def)
  have 2: "\<bar>t - 4 / 5 * (1 - \<bar>z\<bar> / 25)\<bar> \<le> 18 / 5 * \<delta>"
    using et 1 eg ef d0 by (rule error_chain)
  have "(2::real) powi (- 1075) \<le> 2 powi (- 60)" by (rule power_int_increasing) simp_all
  then have "18 / 5 * \<delta> \<le> 18 / 5 * (2 powi (- 53) + 2 powi (- 60))" by (simp add: \<delta>_def)
  also have "\<dots> \<le> 2 powi (- 51)" by (simp add: power_int_minus)
  finally have "18 / 5 * \<delta> \<le> 2 powi (- 51)" .
  then have "\<bar>t - 4 / 5 * (1 - \<bar>z\<bar> / 25)\<bar> \<le> 2 powi (- 51)" using 2 by linarith
  then show ?thesis by (simp add: strength_def t_def c_def g_def f_def)
qed

lemma scaled_bound:
  fixes e a A \<eta> :: real
  assumes "e \<le> a / 9007199254740992 + \<eta>" and "a \<le> A"
  shows "e \<le> A / 9007199254740992 + \<eta>"
proof -
  have "a / 9007199254740992 \<le> A / 9007199254740992" using assms(2) by (rule divide_right_mono) simp
  then show ?thesis using assms(1) by linarith
qed

lemma axis_x_arith:
  fixes b W V X \<eta> :: real
  assumes o: "\<bar>o' - W\<bar> \<le> \<bar>W\<bar> / 9007199254740992 + \<eta>"
    and p: "\<bar>p - (b + o')\<bar> \<le> \<bar>b + o'\<bar> / 9007199254740992 + \<eta>"
    and xs: "\<bar>W\<bar> \<le> X / 2" and sS: "\<bar>W - V\<bar> \<le> X / 2251799813685248"
    and ox: "\<bar>o'\<bar> \<le> X" and b: "\<bar>b\<bar> \<le> 12" and X: "0 \<le> X"
    and \<eta>: "0 \<le> \<eta>" "\<eta> \<le> 1 / 1152921504606846976"
  shows "\<bar>(p - b) - V\<bar> \<le> 1 / 140737488355328 + X / 1125899906842624"
proof -
  have 1: "\<bar>o' - W\<bar> \<le> (X / 2) / 9007199254740992 + \<eta>" using o xs by (rule scaled_bound)
  have "\<bar>b + o'\<bar> \<le> 12 + X" using b ox by linarith
  with p have "\<bar>p - (b + o')\<bar> \<le> (12 + X) / 9007199254740992 + \<eta>" by (rule scaled_bound)
  then have 2: "\<bar>p - (b + o')\<bar> \<le> 12 / 9007199254740992 + X / 9007199254740992 + \<eta>"
    by (simp add: add_divide_distrib)
  have "(p - b) - V = (p - (b + o')) + (o' - W) + (W - V)" by simp
  then have "\<bar>(p - b) - V\<bar> \<le> \<bar>p - (b + o')\<bar> + \<bar>o' - W\<bar> + \<bar>W - V\<bar>" by linarith
  then show ?thesis using 1 2 sS X \<eta> by linarith
qed

lemma axis_y_arith:
  fixes b W V Y \<eta> :: real
  assumes o: "\<bar>o' - W\<bar> \<le> \<bar>W\<bar> / 9007199254740992 + \<eta>"
    and p1: "\<bar>p1 - (b + o')\<bar> \<le> \<bar>b + o'\<bar> / 9007199254740992 + \<eta>"
    and p2: "\<bar>p2 - (p1 + B)\<bar> \<le> \<bar>p1 + B\<bar> / 9007199254740992 + \<eta>"
    and q: "\<bar>q - (b + B)\<bar> \<le> \<bar>b + B\<bar> / 9007199254740992 + \<eta>"
    and xs: "\<bar>W\<bar> \<le> Y / 2" and sS: "\<bar>W - V\<bar> \<le> Y / 2251799813685248"
    and ox: "\<bar>o'\<bar> \<le> Y" and b: "\<bar>b\<bar> \<le> 12" and B: "\<bar>B\<bar> \<le> 1" and Y: "0 \<le> Y"
    and \<eta>: "0 \<le> \<eta>" "\<eta> \<le> 1 / 1152921504606846976"
  shows "\<bar>(p2 - q) - V\<bar> \<le> 1 / 140737488355328 + Y / 1125899906842624"
proof -
  have 1: "\<bar>o' - W\<bar> \<le> (Y / 2) / 9007199254740992 + \<eta>" using o xs by (rule scaled_bound)
  have bo: "\<bar>b + o'\<bar> \<le> 12 + Y" using b ox by linarith
  with p1 have "\<bar>p1 - (b + o')\<bar> \<le> (12 + Y) / 9007199254740992 + \<eta>" by (rule scaled_bound)
  then have 2: "\<bar>p1 - (b + o')\<bar> \<le> 12 / 9007199254740992 + Y / 9007199254740992 + \<eta>"
    by (simp add: add_divide_distrib)
  have "\<bar>p1\<bar> \<le> \<bar>b + o'\<bar> + \<bar>p1 - (b + o')\<bar>" by linarith
  then have "\<bar>p1\<bar> \<le> 13 + 2 * Y" using bo 2 Y \<eta> by linarith
  then have "\<bar>p1 + B\<bar> \<le> 14 + 2 * Y" using B by linarith
  with p2 have "\<bar>p2 - (p1 + B)\<bar> \<le> (14 + 2 * Y) / 9007199254740992 + \<eta>" by (rule scaled_bound)
  then have 3: "\<bar>p2 - (p1 + B)\<bar> \<le> 14 / 9007199254740992 + Y / 4503599627370496 + \<eta>"
    by (simp add: add_divide_distrib)
  have "\<bar>b + B\<bar> \<le> 13" using b B by linarith
  with q have 4: "\<bar>q - (b + B)\<bar> \<le> 13 / 9007199254740992 + \<eta>" by (rule scaled_bound)
  have "(p2 - q) - V = (p2 - (p1 + B)) + (p1 - (b + o')) + (o' - W) + (W - V) - (q - (b + B))"
    by simp
  then have "\<bar>(p2 - q) - V\<bar>
      \<le> \<bar>p2 - (p1 + B)\<bar> + \<bar>p1 - (b + o')\<bar> + \<bar>o' - W\<bar> + \<bar>W - V\<bar> + \<bar>q - (b + B)\<bar>"
    by linarith
  then show ?thesis using 1 2 3 4 sS Y \<eta> by linarith
qed

lemma sq_strict:
  fixes a1 a2 b1 b2 :: real
  assumes "0 \<le> a2" and "a2 < a1" and "0 \<le> b2" and "b2 \<le> b1"
  shows "a2 * a2 + b2 * b2 < a1 * a1 + b1 * b1"
proof -
  have "a2 * a2 < a1 * a1" using assms(1,2) by (intro mult_strict_mono') simp_all
  moreover have "b2 * b2 \<le> b1 * b1" using assms(3,4) by (intro mult_mono) simp_all
  ultimately show ?thesis by linarith
qed

lemma sq_dominant:
  fixes a1 a2 b1 b2 g \<beta> :: real
  assumes "0 \<le> a2" and "a2 + g \<le> a1" and "0 \<le> b2" and "b2 \<le> \<beta>" and "\<beta> < g"
  shows "a2 * a2 + b2 * b2 < a1 * a1 + b1 * b1"
proof -
  have g: "0 \<le> g" "0 \<le> \<beta>" using assms(3,4,5) by linarith+
  have "(a2 + g) * (a2 + g) \<le> a1 * a1" using assms(1,2) g by (intro mult_mono) simp_all
  moreover have "a2 * a2 + g * g \<le> (a2 + g) * (a2 + g)"
    using assms(1) g by (simp add: algebra_simps)
  moreover have "\<beta> * \<beta> < g * g" using assms(5) g by (intro mult_strict_mono') simp_all
  moreover have "b2 * b2 \<le> \<beta> * \<beta>" using assms(3,4) by (intro mult_mono) simp_all
  moreover have "0 \<le> b1 * b1" by simp
  ultimately show ?thesis by linarith
qed

lemma order_axis:
  fixes x y S1 S2 :: real
  assumes ex1: "\<bar>dx1 - x * S1\<bar> \<le> 1 / 140737488355328 + \<bar>x\<bar> / 1125899906842624"
    and ex2: "\<bar>dx2 - x * S2\<bar> \<le> 1 / 140737488355328 + \<bar>x\<bar> / 1125899906842624"
    and ey1: "\<bar>dy1 - y * S1\<bar> \<le> 1 / 140737488355328 + \<bar>y\<bar> / 1125899906842624"
    and ey2: "\<bar>dy2 - y * S2\<bar> \<le> 1 / 140737488355328 + \<bar>y\<bar> / 1125899906842624"
    and S: "0 \<le> S2" "S2 + 4 / 125 \<le> S1" "S1 \<le> 1 / 2"
    and T: "1 / 68719476736 \<le> \<bar>x\<bar>"
  shows "dx2 * dx2 + dy2 * dy2 < dx1 * dx1 + dy1 * dy1"
proof -
  define X where "X = \<bar>x\<bar>"
  define Y where "Y = \<bar>y\<bar>"
  define P1 where "P1 = X * S1"
  define P2 where "P2 = X * S2"
  define Q1 where "Q1 = Y * S1"
  define Q2 where "Q2 = Y * S2"
  have X: "0 \<le> X" "1 / 68719476736 \<le> X" and Y: "0 \<le> Y" using T by (simp_all add: X_def Y_def)
  have S1: "0 \<le> S1" using S by linarith
  have ax: "\<bar>x * S1\<bar> = P1" "\<bar>x * S2\<bar> = P2" using S S1 by (simp_all add: abs_mult X_def P1_def P2_def)
  have ay: "\<bar>y * S1\<bar> = Q1" "\<bar>y * S2\<bar> = Q2" using S S1 by (simp_all add: abs_mult Y_def Q1_def Q2_def)
  have P: "0 \<le> P2" "P2 + X * (4 / 125) \<le> P1"
  proof -
    show "0 \<le> P2" using X S by (simp add: P2_def)
    have "X * (S2 + 4 / 125) \<le> X * S1" using S(2) X(1) by (rule mult_left_mono)
    then show "P2 + X * (4 / 125) \<le> P1" by (simp add: P1_def P2_def algebra_simps)
  qed
  have Q: "0 \<le> Q2" "Q2 + Y * (4 / 125) \<le> Q1" "Q2 \<le> Y * (1 / 2)"
  proof -
    show "0 \<le> Q2" using Y S by (simp add: Q2_def)
    have "Y * (S2 + 4 / 125) \<le> Y * S1" using S(2) Y by (rule mult_left_mono)
    then show "Q2 + Y * (4 / 125) \<le> Q1" by (simp add: Q1_def Q2_def algebra_simps)
    have "S2 \<le> 1 / 2" using S by linarith
    then show "Q2 \<le> Y * (1 / 2)" unfolding Q2_def using Y by (rule mult_left_mono)
  qed
  have a1: "P1 - (1 / 140737488355328 + X / 1125899906842624) \<le> \<bar>dx1\<bar>"
    using ex1 ax(1) unfolding X_def [symmetric] by linarith
  have a2: "\<bar>dx2\<bar> \<le> P2 + (1 / 140737488355328 + X / 1125899906842624)"
    using ex2 ax(2) unfolding X_def [symmetric] by linarith
  have b1: "Q1 - (1 / 140737488355328 + Y / 1125899906842624) \<le> \<bar>dy1\<bar>"
    using ey1 ay(1) unfolding Y_def [symmetric] by linarith
  have b2: "\<bar>dy2\<bar> \<le> Q2 + (1 / 140737488355328 + Y / 1125899906842624)"
    using ey2 ay(2) unfolding Y_def [symmetric] by linarith
  define g where "g = X * (4 / 125) - X / 562949953421312 - 1 / 70368744177664"
  have ag: "\<bar>dx2\<bar> + g \<le> \<bar>dx1\<bar>" using a1 a2 P(2) unfolding g_def by linarith
  have gT: "17 / 70368744177664 < g" using X(2) unfolding g_def by linarith
  have "\<bar>dx2\<bar> * \<bar>dx2\<bar> + \<bar>dy2\<bar> * \<bar>dy2\<bar> < \<bar>dx1\<bar> * \<bar>dx1\<bar> + \<bar>dy1\<bar> * \<bar>dy1\<bar>"
  proof (cases "1 / 70368744177664 \<le> Y * (4 / 125) - Y / 562949953421312")
    case True
    have "\<bar>dy2\<bar> \<le> \<bar>dy1\<bar>" using b1 b2 Q(2) True by linarith
    moreover have "\<bar>dx2\<bar> < \<bar>dx1\<bar>" using ag gT by linarith
    ultimately show ?thesis by (intro sq_strict) simp_all
  next
    case False
    then have "\<bar>dy2\<bar> \<le> 17 / 70368744177664" using b2 Q(3) Y by linarith
    then show ?thesis using ag gT by (intro sq_dominant [where g = g and \<beta> = "17 / 70368744177664"]) simp_all
  qed
  then show ?thesis by simp
qed

lemma rnd64_error_num:
  assumes "rnd64 x = Fin y"
  shows "\<bar>y - x\<bar> \<le> \<bar>x\<bar> / 9007199254740992 + 2 powi (- 1075)"
  using rnd64_error [OF assms] by (simp add: power_int_minus)

lemma eta_small: "(0::real) \<le> 2 powi (- 1075)" "(2::real) powi (- 1075) \<le> 1 / 1152921504606846976"
proof -
  show "(0::real) \<le> 2 powi (- 1075)" by simp
  have "(2::real) powi (- 1075) \<le> 2 powi (- 60)" by (rule power_int_increasing) simp_all
  then show "(2::real) powi (- 1075) \<le> 1 / 1152921504606846976" by (simp add: power_int_minus)
qed

lemma big_doubles: "is_double (3 * 2 powi 1022)" "is_double (7 * 2 powi 1021)"
proof -
  have "(3::real) * 2 powi 1022 = of_int 3 * 2 powi 1022 \<and> \<bar>3::int\<bar> < 2 ^ 53 \<and> (- 1074::int) \<le> 1022"
    by simp
  then have r3: "representable 53 (- 1074) (3 * 2 powi 1022)" unfolding representable_def by blast
  have "(7::real) * 2 powi 1021 = of_int 7 * 2 powi 1021 \<and> \<bar>7::int\<bar> < 2 ^ 53 \<and> (- 1074::int) \<le> 1021"
    by simp
  then have r7: "representable 53 (- 1074) (7 * 2 powi 1021)" unfolding representable_def by blast
  have "(2::real) powi (2 + 1022) = 2 powi 2 * 2 powi 1022" by (rule power_int_add) simp
  then have 4: "(2::real) powi 1024 = 4 * 2 powi 1022" by simp
  have "(2::real) powi (3 + 1021) = 2 powi 3 * 2 powi 1021" by (rule power_int_add) simp
  then have 8: "(2::real) powi 1024 = 8 * 2 powi 1021" by simp
  have p: "(0::real) < 2 powi 1022" "(0::real) < 2 powi 1021" by simp_all
  show "is_double (3 * 2 powi 1022)" unfolding is_double_def using r3 p(1) by (simp add: 4)
  show "is_double (7 * 2 powi 1021)" unfolding is_double_def using r7 p(2) by (simp add: 8)
qed

lemma offset_num:
  assumes "is_double x" and "0 \<le> s" and "s \<le> 1 / 2"
  shows "\<exists>v. Fin x * Fin s = Fin v
    \<and> \<bar>v - x * s\<bar> \<le> \<bar>x * s\<bar> / 9007199254740992 + 2 powi (- 1075)
    \<and> \<bar>v\<bar> \<le> \<bar>x\<bar> \<and> \<bar>v\<bar> \<le> 2 powi 1023 \<and> \<bar>x * s\<bar> \<le> \<bar>x\<bar> / 2"
proof -
  define v where "v = nearest 53 (- 1074) (x * s)"
  have s1: "s \<le> 1" using assms(3) by simp
  have h: "\<bar>x * s\<bar> \<le> \<bar>x\<bar> / 2"
    using assms(2,3) mult_left_mono [of s "1 / 2" "\<bar>x\<bar>"] by (simp add: abs_mult)
  have le: "\<bar>x * s\<bar> \<le> \<bar>x\<bar>" using h by linarith
  have r: "rnd64 (x * s) = Fin v" "\<bar>v\<bar> \<le> \<bar>x\<bar>"
    unfolding v_def using le is_double_abs [OF assms(1)] by (rule rnd64_bounded)+
  have "(2::real) powi (1 + 1023) = 2 powi 1 * 2 powi 1023" by (rule power_int_add) simp
  then have "(2::real) powi 1024 = 2 * 2 powi 1023" by simp
  then have "\<bar>x\<bar> / 2 < 2 powi 1023" using assms(1) by (simp add: is_double_def)
  then have "\<bar>x * s\<bar> \<le> 2 powi 1023" using h by linarith
  then have b: "\<bar>v\<bar> \<le> 2 powi 1023"
    unfolding v_def by (intro nearest_abs_le representable_pow) simp_all
  have "Fin x * Fin s = Fin v" using r(1) by simp
  then show ?thesis using rnd64_error_num [OF r(1)] r(2) b h by blast
qed

lemma sum1_num:
  assumes "\<bar>b\<bar> \<le> 12" and "\<bar>v\<bar> \<le> 2 powi 1023"
  shows "\<exists>p. Fin b + Fin v = Fin p
    \<and> \<bar>p - (b + v)\<bar> \<le> \<bar>b + v\<bar> / 9007199254740992 + 2 powi (- 1075)
    \<and> \<bar>p\<bar> \<le> 3 * 2 powi 1022"
proof -
  define p where "p = nearest 53 (- 1074) (b + v)"
  have "(2::real) powi 4 \<le> 2 powi 1022" by (rule power_int_increasing) simp_all
  then have 12: "(12::real) \<le> 2 powi 1022" by simp
  have "(2::real) powi (1 + 1022) = 2 powi 1 * 2 powi 1022" by (rule power_int_add) simp
  then have "(2::real) powi 1023 = 2 * 2 powi 1022" by simp
  then have "\<bar>b + v\<bar> \<le> 3 * 2 powi 1022" using assms 12 by linarith
  then have r: "rnd64 (b + v) = Fin p" "\<bar>p\<bar> \<le> 3 * 2 powi 1022"
    unfolding p_def using big_doubles(1) by (rule rnd64_bounded)+
  have "Fin b + Fin v = Fin p" using r(1) by simp
  then show ?thesis using rnd64_error_num [OF r(1)] r(2) by blast
qed

lemma sum2_num:
  assumes "\<bar>p\<bar> \<le> 3 * 2 powi 1022" and "\<bar>B\<bar> \<le> 1"
  shows "\<exists>r. Fin p + Fin B = Fin r
    \<and> \<bar>r - (p + B)\<bar> \<le> \<bar>p + B\<bar> / 9007199254740992 + 2 powi (- 1075)"
proof -
  define r where "r = nearest 53 (- 1074) (p + B)"
  have "(2::real) powi 0 \<le> 2 powi 1021" by (rule power_int_increasing) simp_all
  then have 1: "(1::real) \<le> 2 powi 1021" by simp
  have "(2::real) powi (1 + 1021) = 2 powi 1 * 2 powi 1021" by (rule power_int_add) simp
  then have "(2::real) powi 1022 = 2 * 2 powi 1021" by simp
  then have "\<bar>p + B\<bar> \<le> 7 * 2 powi 1021" using assms 1 by linarith
  then have "rnd64 (p + B) = Fin r"
    unfolding r_def using big_doubles(2) by (rule rnd64_bounded(1))
  then show ?thesis using rnd64_error_num [of "p + B" r] by simp
qed

lemma bob_num:
  assumes "\<bar>\<sigma>\<bar> \<le> 1"
  shows "\<exists>B. Fin \<sigma> * js 0.15 = Fin B \<and> \<bar>B\<bar> \<le> 1"
proof -
  define c where "c = nearest 53 (- 1074) 0.15"
  have c: "0 \<le> c" "c \<le> 1" unfolding c_def by (intro nearest_unit; simp)+
  have jc: "js 0.15 = Fin c" unfolding js_def c_def by (intro rnd64_unit) simp_all
  have "\<bar>\<sigma> * c\<bar> \<le> 1" using assms c by (simp add: abs_mult mult_le_one)
  then have "rnd64 (\<sigma> * c) = Fin (nearest 53 (- 1074) (\<sigma> * c))"
      "\<bar>nearest 53 (- 1074) (\<sigma> * c)\<bar> \<le> 1"
    using is_double_1 by (rule rnd64_bounded)+
  then show ?thesis unfolding jc by simp
qed

lemma strength_bounds:
  assumes "12 \<le> \<bar>z\<bar>" and "\<bar>z\<bar> \<le> 20"
  shows "0 \<le> strength z" and "strength z \<le> 1 / 2"
    and "\<bar>x * strength z - x * (4 / 5 * (1 - \<bar>z\<bar> / 25))\<bar> \<le> \<bar>x\<bar> / 2251799813685248"
proof -
  have z: "\<bar>z\<bar> \<le> 25" using assms(2) by simp
  show "0 \<le> strength z" using strength_antimono(1) [of z z] z by simp
  have e: "\<bar>strength z - 4 / 5 * (1 - \<bar>z\<bar> / 25)\<bar> \<le> 1 / 2251799813685248"
    using strength_error [OF z] by (simp add: power_int_minus)
  have "4 / 5 * (1 - \<bar>z\<bar> / 25) \<le> 4 / 5 * (1 - 12 / 25)"
    using assms(1) by (intro mult_left_mono) simp_all
  then have "4 / 5 * (1 - \<bar>z\<bar> / 25) \<le> 52 / 125" by simp
  then show "strength z \<le> 1 / 2" using e by linarith
  have "x * strength z - x * (4 / 5 * (1 - \<bar>z\<bar> / 25)) = x * (strength z - 4 / 5 * (1 - \<bar>z\<bar> / 25))"
    by (simp add: algebra_simps)
  then have "\<bar>x * strength z - x * (4 / 5 * (1 - \<bar>z\<bar> / 25))\<bar>
      = \<bar>x\<bar> * \<bar>strength z - 4 / 5 * (1 - \<bar>z\<bar> / 25)\<bar>"
    by (simp only: abs_mult)
  also have "\<dots> \<le> \<bar>x\<bar> * (1 / 2251799813685248)" using e by (intro mult_left_mono) simp_all
  finally show "\<bar>x * strength z - x * (4 / 5 * (1 - \<bar>z\<bar> / 25))\<bar> \<le> \<bar>x\<bar> / 2251799813685248"
    by simp
qed

lemma displaced:
  assumes base: "basePosition m = Vector3 (Fin bx) (Fin by) (Fin bz)"
    and b: "is_double bx" "is_double by" "\<bar>bx\<bar> \<le> 12" "\<bar>by\<bar> \<le> 12" "12 \<le> \<bar>bz\<bar>" "\<bar>bz\<bar> \<le> 20"
    and sine: "Math_sin h (bobPhase h (speed m)) = Fin \<sigma>" "\<bar>\<sigma>\<bar> \<le> 1"
    and pt: "is_double x" "is_double y"
  shows "\<exists>px py qx qy.
      vx (position (animateWireframe h (Fin x) (Fin y) m)) = Fin px
    \<and> vy (position (animateWireframe h (Fin x) (Fin y) m)) = Fin py
    \<and> vx (position (animateWireframe h (js 0) (js 0) m)) = Fin qx
    \<and> vy (position (animateWireframe h (js 0) (js 0) m)) = Fin qy
    \<and> \<bar>(px - qx) - x * (4 / 5 * (1 - \<bar>bz\<bar> / 25))\<bar>
        \<le> 1 / 140737488355328 + \<bar>x\<bar> / 1125899906842624
    \<and> \<bar>(py - qy) - y * (4 / 5 * (1 - \<bar>bz\<bar> / 25))\<bar>
        \<le> 1 / 140737488355328 + \<bar>y\<bar> / 1125899906842624"
proof -
  define s where "s = strength bz"
  define S where "S = 4 / 5 * (1 - \<bar>bz\<bar> / 25)"
  define \<eta> :: real where "\<eta> = 2 powi (- 1075)"
  have \<eta>: "0 \<le> \<eta>" "\<eta> \<le> 1 / 1152921504606846976" unfolding \<eta>_def by (rule eta_small)+
  have bv: "vx (basePosition m) = Fin bx" "vy (basePosition m) = Fin by" "vz (basePosition m) = Fin bz"
    by (simp_all add: base Vector3_def)
  have "\<bar>bz\<bar> \<le> 25" using b(6) by simp
  then have ps: "parallaxStrength m = Fin s" unfolding s_def using bv(3) by (intro parallaxStrength_eq)
  have s: "0 \<le> s" "s \<le> 1 / 2" unfolding s_def using b(5,6) by (rule strength_bounds)+
  have sx: "\<bar>x * s - x * S\<bar> \<le> \<bar>x\<bar> / 2251799813685248"
    and sy: "\<bar>y * s - y * S\<bar> \<le> \<bar>y\<bar> / 2251799813685248"
    unfolding s_def S_def using b(5,6) by (rule strength_bounds(3))+
  obtain ox where ox: "Fin x * Fin s = Fin ox" "\<bar>ox - x * s\<bar> \<le> \<bar>x * s\<bar> / 9007199254740992 + \<eta>"
      "\<bar>ox\<bar> \<le> \<bar>x\<bar>" "\<bar>ox\<bar> \<le> 2 powi 1023" "\<bar>x * s\<bar> \<le> \<bar>x\<bar> / 2"
    using offset_num [OF pt(1) s] unfolding \<eta>_def by blast
  obtain oy where oy: "Fin y * Fin s = Fin oy" "\<bar>oy - y * s\<bar> \<le> \<bar>y * s\<bar> / 9007199254740992 + \<eta>"
      "\<bar>oy\<bar> \<le> \<bar>y\<bar>" "\<bar>oy\<bar> \<le> 2 powi 1023" "\<bar>y * s\<bar> \<le> \<bar>y\<bar> / 2"
    using offset_num [OF pt(2) s] unfolding \<eta>_def by blast
  obtain px where px: "Fin bx + Fin ox = Fin px"
      "\<bar>px - (bx + ox)\<bar> \<le> \<bar>bx + ox\<bar> / 9007199254740992 + \<eta>"
    using sum1_num [OF b(3) ox(4)] unfolding \<eta>_def by blast
  obtain p1 where p1: "Fin by + Fin oy = Fin p1"
      "\<bar>p1 - (by + oy)\<bar> \<le> \<bar>by + oy\<bar> / 9007199254740992 + \<eta>" "\<bar>p1\<bar> \<le> 3 * 2 powi 1022"
    using sum1_num [OF b(4) oy(4)] unfolding \<eta>_def by blast
  obtain B where B: "Fin \<sigma> * js 0.15 = Fin B" "\<bar>B\<bar> \<le> 1"
    using bob_num [OF sine(2)] by blast
  obtain py where py: "Fin p1 + Fin B = Fin py"
      "\<bar>py - (p1 + B)\<bar> \<le> \<bar>p1 + B\<bar> / 9007199254740992 + \<eta>"
    using sum2_num [OF p1(3) B(2)] unfolding \<eta>_def by blast
  have "(2::real) powi 4 \<le> 2 powi 1022" by (rule power_int_increasing) simp_all
  then have "\<bar>by\<bar> \<le> 3 * 2 powi 1022" using b(4) by simp
  then obtain qy where qy: "Fin by + Fin B = Fin qy"
      "\<bar>qy - (by + B)\<bar> \<le> \<bar>by + B\<bar> / 9007199254740992 + \<eta>"
    using sum2_num [OF _ B(2), of "by"] unfolding \<eta>_def by blast
  have z: "Fin 0 * Fin s = Fin 0" "Fin bx + Fin 0 = Fin bx" "Fin by + Fin 0 = Fin by"
    using rnd64_double [OF b(1)] rnd64_double [OF b(2)] by (simp_all add: rnd64_0)
  have 1: "vx (position (animateWireframe h (Fin x) (Fin y) m)) = Fin px"
    by (simp only: animateWireframe_fields bv ps ox(1) px(1))
  have 2: "vy (position (animateWireframe h (Fin x) (Fin y) m)) = Fin py"
    by (simp only: animateWireframe_fields bv ps oy(1) p1(1) sine(1) B(1) py(1))
  have 3: "vx (position (animateWireframe h (js 0) (js 0) m)) = Fin bx"
    by (simp only: animateWireframe_fields bv ps js_0 z)
  have 4: "vy (position (animateWireframe h (js 0) (js 0) m)) = Fin qy"
    by (simp only: animateWireframe_fields bv ps js_0 z sine(1) B(1) qy(1))
  have 5: "\<bar>(px - bx) - x * S\<bar> \<le> 1 / 140737488355328 + \<bar>x\<bar> / 1125899906842624"
    using ox(2) px(2) ox(5) sx ox(3) b(3) _ \<eta> by (rule axis_x_arith) simp
  have 6: "\<bar>(py - qy) - y * S\<bar> \<le> 1 / 140737488355328 + \<bar>y\<bar> / 1125899906842624"
    using oy(2) p1(2) py(2) qy(2) oy(5) sy oy(3) b(4) B(2) _ \<eta> by (rule axis_y_arith) simp
  show ?thesis using 1 2 3 4 5 6 unfolding S_def by blast
qed

lemma displacement_reachable:
  assumes i: "i < 5"
    and sine: "Math_sin h (bobPhase h (speed (initWireframes h0 ! i))) = Fin \<sigma>" "\<bar>\<sigma>\<bar> \<le> 1"
    and pt: "is_double x" "is_double y"
  shows "\<exists>dx dy n. displacement h (Fin x) (Fin y) (fold perform cs (construct h0 (Some el))) i
        = Some (dx, dy)
    \<and> vz (basePosition (initWireframes h0 ! i)) = Fin (of_int n) \<and> 12 \<le> \<bar>n\<bar> \<and> \<bar>n\<bar> \<le> 20
    \<and> \<bar>dx - x * (4 / 5 * (1 - \<bar>of_int n\<bar> / 25))\<bar> \<le> 1 / 140737488355328 + \<bar>x\<bar> / 1125899906842624
    \<and> \<bar>dy - y * (4 / 5 * (1 - \<bar>of_int n\<bar> / 25))\<bar> \<le> 1 / 140737488355328 + \<bar>y\<bar> / 1125899906842624"
proof -
  obtain a where a: "fold perform cs (construct h0 (Some el)) = Enabled a"
      "map basePosition (geometries a) = map basePosition (initWireframes h0)"
      "map speed (geometries a) = map speed (initWireframes h0)"
    using objects_reachable by blast
  have "length (map basePosition (geometries a)) = 5"
    by (simp only: a(2) length_map length_initWireframes)
  then have len: "length (geometries a) = 5" by simp
  define m where "m = geometries a ! i"
  have "map basePosition (geometries a) ! i = map basePosition (initWireframes h0) ! i"
    by (simp only: a(2))
  then have bm: "basePosition m = basePosition (initWireframes h0 ! i)"
    using i len by (simp add: m_def length_initWireframes)
  have "map speed (geometries a) ! i = map speed (initWireframes h0) ! i" by (simp only: a(3))
  then have sm: "speed m = speed (initWireframes h0 ! i)"
    using i len by (simp add: m_def length_initWireframes)
  obtain nx ny nz :: int where n: "basePosition (initWireframes h0 ! i)
        = Vector3 (Fin (of_int nx)) (Fin (of_int ny)) (Fin (of_int nz))"
      "\<bar>nx\<bar> \<le> 12" "\<bar>ny\<bar> \<le> 12" "12 \<le> \<bar>nz\<bar>" "\<bar>nz\<bar> \<le> 20"
    using object_bases [OF i] by blast
  have r: "\<bar>real_of_int nx\<bar> \<le> 12" "\<bar>real_of_int ny\<bar> \<le> 12"
      "12 \<le> \<bar>real_of_int nz\<bar>" "\<bar>real_of_int nz\<bar> \<le> 20"
    using n(2-5) by (simp_all flip: of_int_abs)
  have d: "is_double (of_int nx)" "is_double (of_int ny)"
    using n(2,3) by (intro is_double_int; simp)+
  obtain px py qx qy where p:
      "vx (position (animateWireframe h (Fin x) (Fin y) m)) = Fin px"
      "vy (position (animateWireframe h (Fin x) (Fin y) m)) = Fin py"
      "vx (position (animateWireframe h (js 0) (js 0) m)) = Fin qx"
      "vy (position (animateWireframe h (js 0) (js 0) m)) = Fin qy"
      "\<bar>(px - qx) - x * (4 / 5 * (1 - \<bar>of_int nz\<bar> / 25))\<bar>
        \<le> 1 / 140737488355328 + \<bar>x\<bar> / 1125899906842624"
      "\<bar>(py - qy) - y * (4 / 5 * (1 - \<bar>of_int nz\<bar> / 25))\<bar>
        \<le> 1 / 140737488355328 + \<bar>y\<bar> / 1125899906842624"
    using displaced [of m "of_int nx" "of_int ny" "of_int nz" h \<sigma> x y] bm n(1) d r sine pt sm
    by auto
  have "displacement h (Fin x) (Fin y) (Enabled a) i = Some (px - qx, py - qy)"
    unfolding displacement_def objects_update Let_def
    using i len by (simp add: m_def [symmetric] p(1-4))
  moreover have "vz (basePosition (initWireframes h0 ! i)) = Fin (of_int nz)"
    by (simp add: n(1) Vector3_def)
  ultimately show ?thesis using p(5,6) n(4,5) unfolding a(1) by blast
qed

lemma strength_gaps:
  fixes A1 A2 :: real
  assumes "A1 + 1 \<le> A2" "12 \<le> A1" "A2 \<le> 20"
  shows "0 \<le> 4 / 5 * (1 - A2 / 25)" "4 / 5 * (1 - A2 / 25) + 4 / 125 \<le> 4 / 5 * (1 - A1 / 25)"
      "4 / 5 * (1 - A1 / 25) \<le> 1 / 2"
  using assms by (simp_all add: algebra_simps)

text \<open>
  Claim C5, amended. Take the scene the constructor builds, after any sequence of
  public calls, and two of its five decorative objects with base depths
  \<open>\<bar>z1\<bar> < \<bar>z2\<bar>\<close> (every base depth of the scene is below \<open>25\<close>). The parallax
  strength of the shallower object is strictly greater. For every pointer input with
  finite coordinates of which at least one has magnitude \<open>2 powi (- 36)\<close> or more,
  and as long as \<^verbatim>\<open>Math.sin\<close> gives a finite value of magnitude at most \<open>1\<close> for the bob
  of the two objects, the pointer-parallax displacement after \<^verbatim>\<open>update()\<close>, that is
  the stored position minus the position stored with the pointer at \<open>(0, 0)\<close>, is
  strictly longer for the shallower object than for the deeper one.
\<close>

theorem parallax_strictly_longer:
  assumes "i < 5" and "j < 5"
    and "vz (basePosition (initWireframes h0 ! i)) = Fin z1"
    and "vz (basePosition (initWireframes h0 ! j)) = Fin z2"
    and "\<bar>z1\<bar> < \<bar>z2\<bar>"
    and "is_double x" and "is_double y" and "2 powi (- 36) \<le> max \<bar>x\<bar> \<bar>y\<bar>"
    and "Math_sin h (bobPhase h (speed (initWireframes h0 ! i))) = Fin \<sigma>1" and "\<bar>\<sigma>1\<bar> \<le> 1"
    and "Math_sin h (bobPhase h (speed (initWireframes h0 ! j))) = Fin \<sigma>2" and "\<bar>\<sigma>2\<bar> \<le> 1"
  shows "\<bar>z2\<bar> < 25
    \<and> (\<exists>s1 s2. parallaxStrength (initWireframes h0 ! i) = Fin s1
          \<and> parallaxStrength (initWireframes h0 ! j) = Fin s2 \<and> 0 \<le> s2 \<and> s2 < s1)
    \<and> (\<exists>d1 d2.
          displacement h (Fin x) (Fin y) (fold perform cs (construct h0 (Some el))) i = Some d1
        \<and> displacement h (Fin x) (Fin y) (fold perform cs (construct h0 (Some el))) j = Some d2
        \<and> hypot d2 < hypot d1)"
proof -
  obtain dx1 dy1 n1 where 1:
      "displacement h (Fin x) (Fin y) (fold perform cs (construct h0 (Some el))) i = Some (dx1, dy1)"
      "vz (basePosition (initWireframes h0 ! i)) = Fin (of_int n1)" "12 \<le> \<bar>n1\<bar>" "\<bar>n1\<bar> \<le> 20"
      "\<bar>dx1 - x * (4 / 5 * (1 - \<bar>of_int n1\<bar> / 25))\<bar> \<le> 1 / 140737488355328 + \<bar>x\<bar> / 1125899906842624"
      "\<bar>dy1 - y * (4 / 5 * (1 - \<bar>of_int n1\<bar> / 25))\<bar> \<le> 1 / 140737488355328 + \<bar>y\<bar> / 1125899906842624"
    using displacement_reachable [OF assms(1,9,10,6,7)] by blast
  obtain dx2 dy2 n2 where 2:
      "displacement h (Fin x) (Fin y) (fold perform cs (construct h0 (Some el))) j = Some (dx2, dy2)"
      "vz (basePosition (initWireframes h0 ! j)) = Fin (of_int n2)" "12 \<le> \<bar>n2\<bar>" "\<bar>n2\<bar> \<le> 20"
      "\<bar>dx2 - x * (4 / 5 * (1 - \<bar>of_int n2\<bar> / 25))\<bar> \<le> 1 / 140737488355328 + \<bar>x\<bar> / 1125899906842624"
      "\<bar>dy2 - y * (4 / 5 * (1 - \<bar>of_int n2\<bar> / 25))\<bar> \<le> 1 / 140737488355328 + \<bar>y\<bar> / 1125899906842624"
    using displacement_reachable [OF assms(2,11,12,6,7)] by blast
  define S1 :: real where "S1 = 4 / 5 * (1 - \<bar>of_int n1\<bar> / 25)"
  define S2 :: real where "S2 = 4 / 5 * (1 - \<bar>of_int n2\<bar> / 25)"
  have z: "z1 = of_int n1" "z2 = of_int n2" using assms(3,4) 1(2) 2(2) by simp_all
  have "\<bar>real_of_int n1\<bar> < \<bar>real_of_int n2\<bar>" using assms(5) by (simp only: z)
  then have "\<bar>n1\<bar> < \<bar>n2\<bar>" by (simp flip: of_int_abs)
  then have "\<bar>n1\<bar> + 1 \<le> \<bar>n2\<bar>" by simp
  then have "real_of_int (\<bar>n1\<bar> + 1) \<le> real_of_int \<bar>n2\<bar>" by (simp only: of_int_le_iff)
  then have gap: "\<bar>real_of_int n1\<bar> + 1 \<le> \<bar>real_of_int n2\<bar>" by simp
  have r: "12 \<le> \<bar>real_of_int n1\<bar>" "\<bar>real_of_int n2\<bar> \<le> 20"
    using 1(3) 2(4) by (simp_all flip: of_int_abs)
  define A1 where "A1 = \<bar>real_of_int n1\<bar>"
  define A2 where "A2 = \<bar>real_of_int n2\<bar>"
  have A: "A1 + 1 \<le> A2" "12 \<le> A1" "A2 \<le> 20" using gap r by (simp_all add: A1_def A2_def)
  have "0 \<le> 4 / 5 * (1 - A2 / 25)" "4 / 5 * (1 - A2 / 25) + 4 / 125 \<le> 4 / 5 * (1 - A1 / 25)"
      "4 / 5 * (1 - A1 / 25) \<le> 1 / 2"
    using A by (rule strength_gaps)+
  then have S: "0 \<le> S2" "S2 + 4 / 125 \<le> S1" "S1 \<le> 1 / 2"
    unfolding S1_def S2_def A1_def A2_def .
  have z25: "\<bar>z2\<bar> < 25" using r(2) by (simp add: z)
  have T: "(2::real) powi (- 36) = 1 / 68719476736" by (simp add: power_int_minus)
  have "dx2 * dx2 + dy2 * dy2 < dx1 * dx1 + dy1 * dy1"
  proof (cases "1 / 68719476736 \<le> \<bar>x\<bar>")
    case True
    show ?thesis
      using 1(5,6) 2(5,6) S True unfolding S1_def [symmetric] S2_def [symmetric]
      by (intro order_axis [where x = x and y = y and ?S1.0 = S1 and ?S2.0 = S2])
  next
    case False
    then have "1 / 68719476736 \<le> \<bar>y\<bar>" using assms(8) unfolding T by linarith
    then have "dy2 * dy2 + dx2 * dx2 < dy1 * dy1 + dx1 * dx1"
      using 1(5,6) 2(5,6) S unfolding S1_def [symmetric] S2_def [symmetric]
      by (intro order_axis [where x = y and y = x and ?S1.0 = S1 and ?S2.0 = S2])
    then show ?thesis by linarith
  qed
  then have h: "hypot (dx2, dy2) < hypot (dx1, dy1)" by simp
  have z25': "\<bar>z1\<bar> \<le> 25" "\<bar>z2\<bar> \<le> 25" using z25 assms(5) by linarith+
  have p: "parallaxStrength (initWireframes h0 ! i) = Fin (strength z1)"
      "parallaxStrength (initWireframes h0 ! j) = Fin (strength z2)"
    using assms(3,4) z25' by (simp_all add: parallaxStrength_eq)
  have "\<bar>strength z1 - S1\<bar> \<le> 1 / 2251799813685248" "\<bar>strength z2 - S2\<bar> \<le> 1 / 2251799813685248"
    using strength_error [OF z25'(1)] strength_error [OF z25'(2)]
    unfolding S1_def S2_def z by (simp_all add: power_int_minus)
  then have lt: "strength z2 < strength z1" using S(2) by linarith
  have "0 \<le> strength z2" using strength_antimono(1) [of z2 z2] z25'(2) by simp
  then show ?thesis using 1(1) 2(1) z25 h p lt by blast
qed

lemma speed_sine_sample: "Math_sin sample_host t = Fin 0"
  by (simp add: sample_host_def)

text \<open>
  The hypotheses of the amended claim C5 hold of the first two objects of the scene,
  at depths \<open>15\<close> and \<open>20\<close>, with the pointer at \<open>(1, 0)\<close>.
\<close>

theorem parallax_strictly_longer_witness:
  "(0::nat) < 5 \<and> (1::nat) < 5
   \<and> vz (basePosition (initWireframes sample_host ! 0)) = Fin (- 15)
   \<and> vz (basePosition (initWireframes sample_host ! 1)) = Fin (- 20)
   \<and> \<bar>- 15 :: real\<bar> < \<bar>- 20\<bar>
   \<and> is_double 1 \<and> is_double 0 \<and> 2 powi (- 36) \<le> max \<bar>1 :: real\<bar> \<bar>0\<bar>
   \<and> Math_sin sample_host (bobPhase sample_host (speed (initWireframes sample_host ! 0))) = Fin 0
   \<and> Math_sin sample_host (bobPhase sample_host (speed (initWireframes sample_host ! 1))) = Fin 0
   \<and> \<bar>0 :: real\<bar> \<le> 1
   \<and> (\<exists>d1 d2.
         displacement sample_host (Fin 1) (Fin 0)
           (fold perform [Update sample_host] (construct sample_host (Some ''bg''))) 0 = Some d1
       \<and> displacement sample_host (Fin 1) (Fin 0)
           (fold perform [Update sample_host] (construct sample_host (Some ''bg''))) 1 = Some d2
       \<and> hypot d2 < hypot d1)"
proof -
  have i: "(0::nat) < 5" "(1::nat) < 5" by simp_all
  have z: "vz (basePosition (initWireframes sample_host ! 0)) = Fin (- 15)"
      "vz (basePosition (initWireframes sample_host ! 1)) = Fin (- 20)"
    unfolding basePosition_initWireframes by (simp_all add: Vector3_def)
  have o: "\<bar>- 15 :: real\<bar> < \<bar>- 20\<bar>" by simp
  have d: "is_double 1" "is_double 0" using is_double_int [of 1] is_double_int [of 0] by simp_all
  have "(2::real) powi (- 36) \<le> 2 powi 0" by (rule power_int_increasing) simp_all
  then have t: "2 powi (- 36) \<le> max \<bar>1 :: real\<bar> \<bar>0\<bar>" by simp
  have s: "Math_sin sample_host (bobPhase sample_host (speed (initWireframes sample_host ! 0))) = Fin 0"
      "Math_sin sample_host (bobPhase sample_host (speed (initWireframes sample_host ! 1))) = Fin 0"
    by (rule speed_sine_sample)+
  have b: "\<bar>0 :: real\<bar> \<le> 1" by simp
  show ?thesis
    using parallax_strictly_longer [OF i z o d t s(1) b s(2) b, of "[Update sample_host]" "''bg''"]
      i z o d t s b
    by blast
qed

lemma strength_16: "strength (- 16) = 5188146770730811 / 2 ^ 54"
proof -
  define F :: real where "F = 5764607523034235 / 2 ^ 53"
  define G :: real where "G = 6485183463413514 / 2 ^ 54"
  define C :: real where "C = 7205759403792794 / 2 ^ 53"
  have f: "nearest 53 (- 1074) (\<bar>- 16\<bar> / 25) = F"
  proof -
    have "nearest 53 (- 1074) (\<bar>- 16\<bar> / 25) = of_int 5764607523034235 * 2 powi (- 53)"
      by (rule nearest_eval [where k = "- 1"]) (simp_all add: rne_def Let_def)
    then show ?thesis by (simp add: F_def power_int_minus divide_simps)
  qed
  have g: "nearest 53 (- 1074) (1 - F) = G"
  proof -
    have "nearest 53 (- 1074) (1 - F) = of_int 6485183463413514 * 2 powi (- 54)"
      unfolding F_def by (rule nearest_eval [where k = "- 2"]) (simp_all add: rne_def Let_def)
    then show ?thesis by (simp add: G_def power_int_minus divide_simps)
  qed
  have c: "nearest 53 (- 1074) 0.8 = C"
  proof -
    have "nearest 53 (- 1074) 0.8 = of_int 7205759403792794 * 2 powi (- 53)"
      by (rule nearest_eval [where k = "- 1"]) (simp_all add: rne_def Let_def)
    then show ?thesis by (simp add: C_def power_int_minus divide_simps)
  qed
  have t: "nearest 53 (- 1074) (C * G) = 5188146770730811 / 2 ^ 54"
  proof -
    have "nearest 53 (- 1074) (C * G) = of_int 5188146770730811 * 2 powi (- 54)"
      unfolding C_def G_def by (rule nearest_eval [where k = "- 2"]) (simp_all add: rne_def Let_def)
    then show ?thesis by (simp add: power_int_minus divide_simps)
  qed
  show ?thesis by (simp only: strength_def f g c t)
qed

lemma absorbed:
  assumes "0 \<le> v" and "v \<le> 2 powi (- 51)"
  shows "nearest 53 (- 1074) (- 10 + v) = - 10"
proof -
  have v: "v \<le> 1 / 2251799813685248" using assms(2) by (simp add: power_int_minus)
  have "(- 10 + v) / 2 powi (- 49) = real_of_int (- 5629499534213120) + v * 562949953421312"
    by (simp add: power_int_minus divide_simps)
  moreover have "\<bar>v * 562949953421312\<bar> < 1 / 2" using assms(1) v by simp
  ultimately have "\<bar>(- 10 + v) / 2 powi (- 49) - real_of_int (- 5629499534213120)\<bar> < 1 / 2"
    by simp
  then have r: "rne ((- 10 + v) / 2 powi (- 49)) = - 5629499534213120" by (rule rne_near)
  have "nearest 53 (- 1074) (- 10 + v) = of_int (- 5629499534213120) * 2 powi (- 49)"
    using assms(1) v r by (intro nearest_eval [where k = 3]) simp_all
  then show ?thesis by (simp add: power_int_minus)
qed

lemma displacement_construct:
  assumes "i < 5"
  shows "displacement h X Y (construct h0 (Some el)) i =
    (case those (map fin
        [vx (position (animateWireframe h X Y (initWireframes h0 ! i))),
         vy (position (animateWireframe h X Y (initWireframes h0 ! i))),
         vx (position (animateWireframe h (js 0) (js 0) (initWireframes h0 ! i))),
         vy (position (animateWireframe h (js 0) (js 0) (initWireframes h0 ! i)))]) of
       Some [px, py, qx, qy] \<Rightarrow> Some (px - qx, py - qy)
     | _ \<Rightarrow> None)"
  using assms
  by (simp add: displacement_def construct_def geometries_frame length_initWireframes Let_def
      del: those.simps)

lemma zero_times_literal: "Fin 0 * js 0.15 = Fin 0"
proof -
  have "js 0.15 = Fin (nearest 53 (- 1074) 0.15)"
    unfolding js_def by (intro rnd64_unit) simp_all
  then show ?thesis by (simp add: rnd64_0)
qed

lemma position_sample:
  assumes "basePosition m = Vector3 (Fin bx) (Fin by) (Fin bz)" and "\<bar>bz\<bar> \<le> 25"
    and that: "rnd64 by = Fin by"
  shows "vx (position (animateWireframe sample_host X (Fin 0) m)) = Fin bx + X * Fin (strength bz)"
    and "vy (position (animateWireframe sample_host X (Fin 0) m)) = Fin by"
proof -
  have "vz (basePosition m) = Fin bz" by (simp add: assms(1) Vector3_def)
  then have ps: "parallaxStrength m = Fin (strength bz)" using assms(2) by (rule parallaxStrength_eq)
  have sn: "Math_sin sample_host t = Fin 0" for t by (simp add: sample_host_def)
  show "vx (position (animateWireframe sample_host X (Fin 0) m)) = Fin bx + X * Fin (strength bz)"
    by (simp add: animateWireframe_fields assms(1) Vector3_def ps del: times_jsnum.simps plus_jsnum.simps)
  have "vy (position (animateWireframe sample_host X (Fin 0) m))
      = Fin by + Fin 0 * Fin (strength bz) + Fin 0 * js 0.15"
    by (simp add: animateWireframe_fields assms(1) Vector3_def ps sn
        del: times_jsnum.simps plus_jsnum.simps)
  also have "\<dots> = Fin by"
    by (simp only: zero_times_literal times_jsnum.simps plus_jsnum.simps mult_zero_left
        add_0_right rnd64_0 that)
  finally show "vy (position (animateWireframe sample_host X (Fin 0) m)) = Fin by" .
qed

lemma displacement_sample:
  assumes "i < 5" and "basePosition (initWireframes sample_host ! i) = Vector3 (Fin bx) (Fin by) (Fin bz)"
    and "\<bar>bz\<bar> \<le> 25" and "rnd64 bx = Fin bx" and "rnd64 by = Fin by"
    and "Fin bx + X * Fin (strength bz) = Fin px"
  shows "displacement sample_host X (Fin 0) (construct sample_host (Some ''bg'')) i = Some (px - bx, 0)"
proof -
  let ?m = "initWireframes sample_host ! i"
  have z: "Fin bx + Fin 0 * Fin (strength bz) = Fin bx" by (simp add: rnd64_0 assms(4))
  have 1: "vx (position (animateWireframe sample_host X (Fin 0) ?m)) = Fin px"
    using position_sample(1) [OF assms(2,3,5)] assms(6) by simp
  have 2: "vy (position (animateWireframe sample_host X (Fin 0) ?m)) = Fin by"
    using assms(2,3,5) by (rule position_sample(2))
  have 3: "vx (position (animateWireframe sample_host (js 0) (js 0) ?m)) = Fin bx"
    unfolding js_0 using position_sample(1) [OF assms(2,3,5), of "Fin 0"] z by simp
  have 4: "vy (position (animateWireframe sample_host (js 0) (js 0) ?m)) = Fin by"
    unfolding js_0 using assms(2,3,5) by (rule position_sample(2))
  show ?thesis
    unfolding displacement_construct [OF assms(1)] 1 2 3 4 by simp
qed

lemma is_double_16: "is_double 16" using is_double_int [of 16] by simp

lemma tiny_offset_absorbed:
  assumes "0 \<le> s" and "s \<le> 1 / 2"
  shows "Fin (- 10) + Fin (2 powi (- 50)) * Fin s = Fin (- 10)"
proof -
  define x :: real where "x = 2 powi (- 50)"
  define v where "v = nearest 53 (- 1074) (x * s)"
  have x: "0 < x" "x \<le> 1" "x * (1 / 2) = 2 powi (- 51)"
    by (simp_all add: x_def power_int_minus)
  have "x * s \<le> x * (1 / 2)" using assms(2) x(1) by (intro mult_left_mono) simp_all
  then have xs2: "x * s \<le> 2 powi (- 51)" by (simp only: x(3))
  have xs1: "0 \<le> x * s" using assms(1) x(1) by simp
  note xs = xs1 xs2
  have "x * s \<le> 1" using xs(2) x by (simp add: power_int_minus)
  then have "\<bar>x * s\<bar> \<le> 1" using xs(1) by simp
  then have r: "rnd64 (x * s) = Fin v" unfolding v_def using is_double_1 by (rule rnd64_bounded(1))
  have v0: "0 \<le> v" unfolding v_def using xs(1) by (rule nearest_nonneg)
  have "v \<le> nearest 53 (- 1074) (2 powi (- 51))"
    unfolding v_def using xs(2) by (intro nearest_mono) simp_all
  also have "\<dots> = 2 powi (- 51)" by (intro nearest_exact representable_pow) simp_all
  finally have v1: "v \<le> 2 powi (- 51)" .
  have n: "nearest 53 (- 1074) (- 10 + v) = - 10" using v0 v1 by (rule absorbed)
  have "v \<le> 1" using v1 by (simp add: power_int_minus)
  then have "\<bar>- 10 + v\<bar> \<le> 16" using v0 by simp
  then have "rnd64 (- 10 + v) = Fin (nearest 53 (- 1074) (- 10 + v))"
    using is_double_16 by (rule rnd64_bounded(1))
  then have "Fin (- 10) + Fin v = Fin (- 10)" by (simp only: plus_jsnum.simps n)
  moreover have "Fin x * Fin s = Fin v" using r by simp
  ultimately show ?thesis unfolding x_def by (simp only:)
qed

lemma tiny_offset_kept:
  "Fin 0 + Fin (2 powi (- 50)) * Fin (5188146770730811 / 2 ^ 54) = Fin (5188146770730811 / 2 ^ 104)"
proof -
  define v :: real where "v = 5188146770730811 / 2 ^ 104"
  have e: "2 powi (- 50) * (5188146770730811 / 2 ^ 54) = v"
    by (simp add: v_def power_int_minus)
  have "v = of_int 5188146770730811 * 2 powi (- 104) \<and> \<bar>5188146770730811 :: int\<bar> < 2 ^ 53
      \<and> (- 1074 :: int) \<le> - 104"
    by (simp add: v_def power_int_minus)
  then have "representable 53 (- 1074) v" unfolding representable_def by blast
  moreover have "\<bar>v\<bar> < 2 powi 1024"
  proof -
    have "\<bar>v\<bar> \<le> 1" by (simp add: v_def)
    moreover have "(2::real) powi 0 < 2 powi 1024" by (rule power_int_strict_increasing) simp_all
    ultimately show ?thesis by simp
  qed
  ultimately have "is_double v" by (simp add: is_double_def)
  then have r: "rnd64 v = Fin v" by (rule rnd64_double)
  have "Fin (2 powi (- 50)) * Fin (5188146770730811 / 2 ^ 54) = Fin v"
    by (simp only: times_jsnum.simps e r)
  moreover have "Fin 0 + Fin v = Fin v" using r by simp
  ultimately show ?thesis unfolding v_def by (simp only:)
qed

text \<open>
  Claim C5, as stated, fails. With the pointer at \<open>(0, 0)\<close>, where it is until the
  first pointer event, the objects at depths \<open>15\<close> and \<open>20\<close> are both displaced by
  \<open>(0, 0)\<close>. With the pointer at \<open>(2 powi (- 50), 0)\<close> the object at depth \<open>15\<close>, whose
  base \<open>x\<close> is \<open>-10\<close>, is not displaced at all, its offset being lost when the sum with
  the base position is rounded, while the deeper object at depth \<open>16\<close>, whose base \<open>x\<close>
  is \<open>0\<close>, is displaced by its whole offset.
\<close>

theorem parallax_not_strictly_longer:
  "vz (basePosition (initWireframes sample_host ! 0)) = Fin (- 15)
   \<and> vz (basePosition (initWireframes sample_host ! 1)) = Fin (- 20)
   \<and> vz (basePosition (initWireframes sample_host ! 4)) = Fin (- 16)
   \<and> displacement sample_host (Fin 0) (Fin 0) (construct sample_host (Some ''bg'')) 0 = Some (0, 0)
   \<and> displacement sample_host (Fin 0) (Fin 0) (construct sample_host (Some ''bg'')) 1 = Some (0, 0)
   \<and> displacement sample_host (Fin (2 powi (- 50))) (Fin 0) (construct sample_host (Some ''bg'')) 0
       = Some (0, 0)
   \<and> displacement sample_host (Fin (2 powi (- 50))) (Fin 0) (construct sample_host (Some ''bg'')) 4
       = Some (5188146770730811 / 2 ^ 104, 0)
   \<and> hypot (0, 0) < hypot (5188146770730811 / 2 ^ 104, 0)"
proof -
  have z: "vz (basePosition (initWireframes sample_host ! 0)) = Fin (- 15)"
      "vz (basePosition (initWireframes sample_host ! 1)) = Fin (- 20)"
      "vz (basePosition (initWireframes sample_host ! 4)) = Fin (- 16)"
    unfolding basePosition_initWireframes by (simp_all add: Vector3_def)
  have r: "rnd64 (- 10) = Fin (- 10)" "rnd64 6 = Fin 6" "rnd64 12 = Fin 12" "rnd64 (- 4) = Fin (- 4)"
      "rnd64 0 = Fin 0" "rnd64 (- 12) = Fin (- 12)"
    using rnd64_int [of "- 10"] rnd64_int [of 6] rnd64_int [of 12] rnd64_int [of "- 4"]
      rnd64_int [of 0] rnd64_int [of "- 12"]
    by simp_all
  have s15: "0 \<le> strength (- 15)" "strength (- 15) \<le> 1 / 2"
    by (rule strength_bounds; simp)+
  have i: "(0::nat) < 5" "(1::nat) < 5" "(4::nat) < 5" by simp_all
  have d25: "\<bar>- 15 :: real\<bar> \<le> 25" "\<bar>- 20 :: real\<bar> \<le> 25" "\<bar>- 16 :: real\<bar> \<le> 25" by simp_all
  have z0: "Fin b + Fin 0 * Fin t = Fin b" if "rnd64 b = Fin b" for b t
    using that by (simp add: rnd64_0)
  have k: "Fin 0 + Fin (2 powi (- 50)) * Fin (strength (- 16)) = Fin (5188146770730811 / 2 ^ 104)"
    by (simp only: strength_16 tiny_offset_kept)
  have a: "displacement sample_host (Fin 0) (Fin 0) (construct sample_host (Some ''bg'')) 0
      = Some (- 10 - (- 10), 0)"
    using i(1) basePosition_initWireframes(1) d25(1) r(1) r(2) z0 [OF r(1)]
    by (rule displacement_sample)
  have b: "displacement sample_host (Fin 0) (Fin 0) (construct sample_host (Some ''bg'')) 1
      = Some (12 - 12, 0)"
    using i(2) basePosition_initWireframes(2) d25(2) r(3) r(4) z0 [OF r(3)]
    by (rule displacement_sample)
  have c: "displacement sample_host (Fin (2 powi (- 50))) (Fin 0) (construct sample_host (Some ''bg'')) 0
      = Some (- 10 - (- 10), 0)"
    using i(1) basePosition_initWireframes(1) d25(1) r(1) r(2) tiny_offset_absorbed [OF s15]
    by (rule displacement_sample)
  have d: "displacement sample_host (Fin (2 powi (- 50))) (Fin 0) (construct sample_host (Some ''bg'')) 4
      = Some (5188146770730811 / 2 ^ 104 - 0, 0)"
    using i(3) basePosition_initWireframes(5) d25(3) r(5) r(6) k
    by (rule displacement_sample)
  have e: "hypot (0, 0) < hypot (5188146770730811 / 2 ^ 104, 0)" by simp
  show ?thesis using z a b c d e by simp
qed

end
